theory Spec2Isabelle
  imports Main "HOL-Library.Char_ord" "HOL-Library.List_Lexorder"
begin

section \<open>Python exceptions and blocking calls as values\<close>

text \<open>
  Every \<^verbatim>\<open>raise\<close> and every failing \<^verbatim>\<open>assert\<close> of the source is a value of
  \<open>error\<close>. The generic \<^verbatim>\<open>Exception(msg)\<close> and \<^verbatim>\<open>ValueError(msg)\<close> carry their
  message; \<open>ValidationError\<close> is what a pydantic model raises when a field or a
  validator rejects its input.
\<close>

datatype error =
    Exception string
  | AssertionError
  | ValueError string
  | KeyError string
  | AttributeError string
  | ValidationError

text \<open>
  A call that waits on the execution substrate has three outcomes: it raises, it returns,
  or it never comes back (\<^verbatim>\<open>ray.wait(..., timeout=None)\<close> on handles that never finish).
\<close>

datatype 'a outcome = Raises error | Blocks_forever | Returns 'a

section \<open>core/dag\_runner.py: Task\<close>

text \<open>
  A handle of the external runtime (\<^verbatim>\<open>ray.ObjectRef\<close>) is an opaque number. A Task
  holds the remote callable \<^verbatim>\<open>_f_remote\<close>, which submits work and returns a handle, and
  the optional handle \<^verbatim>\<open>_future_or_none\<close>. The arguments of \<^verbatim>\<open>start\<close> are handles
  (the scheduler passes \<^verbatim>\<open>ray.put({})\<close>).
\<close>

type_synonym object_ref = nat

record Task =
  f_remote :: "object_ref list \<Rightarrow> object_ref"
  future_or_none :: "object_ref option"

definition has_started :: "Task \<Rightarrow> bool" where
  "has_started self = (future_or_none self \<noteq> None)"

definition start :: "Task \<Rightarrow> object_ref list \<Rightarrow> error + Task" where
  "start self args =
     (if has_started self then Inl (Exception ''Task has already started'')
      else Inr (self\<lparr>future_or_none := Some (f_remote self args)\<rparr>))"

definition get_ref :: "Task \<Rightarrow> error + object_ref" where
  "get_ref self =
     (if \<not> has_started self then Inl (Exception ''Task has not started'')
      else (case future_or_none self of
              Some r \<Rightarrow> Inr r
            | None \<Rightarrow> Inl (Exception ''Task has not started'')))"

text \<open>
  The external runtime, as far as the scheduler uses it: the handle \<^verbatim>\<open>ray.put({})\<close>
  returns, which handle a blocking \<^verbatim>\<open>ray.wait(refs, num_returns=1, timeout=None)\<close>
  reports as done (\<open>None\<close>: it blocks forever), and what \<^verbatim>\<open>ray.get\<close> yields for a
  finished handle (the value, or the error the remote call recorded). The set of handles
  known to be finished is state: a handle that a blocking wait has reported stays ready,
  and the zero-timeout poll of \<^verbatim>\<open>has_completed\<close> reads that set.
\<close>

record 'a ray =
  ray_put_empty_dict :: object_ref
  ray_wait :: "object_ref list \<Rightarrow> object_ref option"
  ray_get :: "object_ref \<Rightarrow> error + 'a"

definition ray_wait_timeout_0 :: "object_ref set \<Rightarrow> object_ref list \<Rightarrow> object_ref list \<times> object_ref list" where
  "ray_wait_timeout_0 finished refs =
     (filter (\<lambda>r. r \<in> finished) refs, filter (\<lambda>r. r \<notin> finished) refs)"

definition has_completed :: "object_ref set \<Rightarrow> Task \<Rightarrow> error + bool" where
  "has_completed finished self =
     (if \<not> has_started self then Inr False
      else (case get_ref self of
              Inl e \<Rightarrow> Inl e
            | Inr r \<Rightarrow>
                (let (finished_refs, not_finished_refs) = ray_wait_timeout_0 finished [r]
                 in if length finished_refs + length not_finished_refs \<noteq> 1 then Inl AssertionError
                    else Inr (length finished_refs = 1))))"

definition result :: "'a ray \<Rightarrow> object_ref set \<Rightarrow> Task \<Rightarrow> error + 'a" where
  "result rt finished self =
     (case has_completed finished self of
        Inl e \<Rightarrow> Inl e
      | Inr c \<Rightarrow>
          if \<not> c then Inl (Exception ''Result has not finished. Calling ray.get would block execution'')
          else (case get_ref self of Inl e \<Rightarrow> Inl e | Inr r \<Rightarrow> ray_get rt r))"

text \<open>
  Operations a caller can apply to one Task object. Only \<^verbatim>\<open>start\<close> assigns
  \<^verbatim>\<open>_future_or_none\<close>; a call that raises leaves the object as it was. \<open>run_ops\<close>
  applies a sequence of operations and counts the \<^verbatim>\<open>start\<close> calls that bound a handle.
\<close>

datatype task_op = Start "object_ref list" | Get_ref | Has_started | Has_completed | Result

fun apply_op :: "task_op \<Rightarrow> Task \<Rightarrow> Task \<times> nat" where
  "apply_op (Start args) self =
     (case start self args of Inl e \<Rightarrow> (self, 0) | Inr self' \<Rightarrow> (self', 1))"
| "apply_op Get_ref self = (self, 0)"
| "apply_op Has_started self = (self, 0)"
| "apply_op Has_completed self = (self, 0)"
| "apply_op Result self = (self, 0)"

fun run_ops :: "task_op list \<Rightarrow> Task \<Rightarrow> Task \<times> nat" where
  "run_ops [] self = (self, 0)"
| "run_ops (op # ops) self =
     (let (self', n) = apply_op op self; (self'', m) = run_ops ops self'
      in (self'', n + m))"

section \<open>core/dag\_runner.py: the scheduler\<close>

text \<open>
  Task objects are compared by identity, so a task in a list or in an edge is a reference
  into a heap of Task objects. A dependency is an edge with \<^verbatim>\<open>from_node\<close> and
  \<^verbatim>\<open>to_node\<close>; \<^verbatim>\<open>TaskDependencies\<close> is iterated as a list of edges.
\<close>

type_synonym task_ref = nat

record Edge =
  from_node :: task_ref
  to_node :: task_ref

definition task_can_run :: "task_ref \<Rightarrow> task_ref list \<Rightarrow> Edge list \<Rightarrow> bool" where
  "task_can_run task completed_tasks task_dependencies =
     (let required_dependencies =
            map from_node (filter (\<lambda>td. task = to_node td) task_dependencies)
      in list_all (\<lambda>dependent_task. dependent_task \<in> set completed_tasks) required_dependencies)"

text \<open>
  A Python dict keeps insertion order and one entry per key: storing under a key that is
  present replaces the value in place.
\<close>

fun dict_set :: "('k \<times> 'v) list \<Rightarrow> 'k \<Rightarrow> 'v \<Rightarrow> ('k \<times> 'v) list" where
  "dict_set [] k v = [(k, v)]"
| "dict_set ((k', v') # d) k v = (if k' = k then (k, v) # d else (k', v') # dict_set d k v)"

fun ref_to_task_dict :: "(task_ref \<Rightarrow> Task) \<Rightarrow> task_ref list \<Rightarrow> (object_ref \<times> task_ref) list
    \<Rightarrow> error + (object_ref \<times> task_ref) list" where
  "ref_to_task_dict heap [] d = Inr d"
| "ref_to_task_dict heap (t # ts) d =
     (case get_ref (heap t) of
        Inl e \<Rightarrow> Inl e
      | Inr r \<Rightarrow> ref_to_task_dict heap ts (dict_set d r t))"

definition get_next_completed_task :: "'a ray \<Rightarrow> (task_ref \<Rightarrow> Task) \<Rightarrow> task_ref list
    \<Rightarrow> (task_ref \<times> object_ref) outcome" where
  "get_next_completed_task rt heap tasks =
     (if \<not> length tasks > 0 then Raises AssertionError
      else (case ref_to_task_dict heap tasks [] of
              Inl e \<Rightarrow> Raises e
            | Inr d \<Rightarrow>
                (case ray_wait rt (map fst d) of
                   None \<Rightarrow> Blocks_forever
                 | Some ref_done \<Rightarrow>
                     (case map_of d ref_done of
                        None \<Rightarrow> Raises (KeyError ''ref'')
                      | Some t \<Rightarrow> Returns (t, ref_done)))))"

text \<open>The \<^verbatim>\<open>for\<close> loop that starts every runnable task that has not started.\<close>

fun start_tasks :: "'a ray \<Rightarrow> (task_ref \<Rightarrow> Task) \<Rightarrow> task_ref list \<Rightarrow> error + (task_ref \<Rightarrow> Task)" where
  "start_tasks rt heap [] = Inr heap"
| "start_tasks rt heap (task # tasks) =
     (if \<not> has_started (heap task) then
        (case start (heap task) [ray_put_empty_dict rt] of
           Inl e \<Rightarrow> Inl e
         | Inr task' \<Rightarrow> start_tasks rt (heap(task := task')) tasks)
      else start_tasks rt heap tasks)"

text \<open>
  The variables of the \<^verbatim>\<open>while\<close> loop of \<^verbatim>\<open>run_tasks\<close>, with the heap of Task
  objects and the set of handles the runtime has reported as finished.
\<close>

record run_state =
  iteration_nr :: int
  completed_tasks :: "task_ref list"
  not_completed_tasks :: "task_ref list"
  heap :: "task_ref \<Rightarrow> Task"
  finished :: "object_ref set"

definition loop_body :: "'a ray \<Rightarrow> task_ref list \<Rightarrow> Edge list \<Rightarrow> run_state \<Rightarrow> run_state outcome" where
  "loop_body rt all_tasks task_dependencies s =
     (let iteration_nr' = iteration_nr s + 1;
          not_completed_tasks_that_can_run =
            filter (\<lambda>task. task_can_run task (completed_tasks s) task_dependencies)
              (not_completed_tasks s)
      in if iteration_nr' = 0 \<and> length not_completed_tasks_that_can_run = 0
         then Raises (Exception ''Check run dependencies, unable to start any task!'')
         else (case start_tasks rt (heap s) not_completed_tasks_that_can_run of
                 Inl e \<Rightarrow> Raises e
               | Inr heap' \<Rightarrow>
                   (case get_next_completed_task rt heap' not_completed_tasks_that_can_run of
                      Raises e \<Rightarrow> Raises e
                    | Blocks_forever \<Rightarrow> Blocks_forever
                    | Returns (next_completed_task, ref_done) \<Rightarrow>
                        (let completed_tasks' = completed_tasks s @ [next_completed_task]
                         in Returns \<lparr>iteration_nr = iteration_nr',
                                     completed_tasks = completed_tasks',
                                     not_completed_tasks =
                                       filter (\<lambda>task. task \<notin> set completed_tasks') all_tasks,
                                     heap = heap',
                                     finished = insert ref_done (finished s)\<rparr>))))"

text \<open>
  The \<^verbatim>\<open>while\<close> loop. The task that \<open>get_next_completed_task\<close> returns is one of
  the tasks it was given, so every iteration that returns moves one more task of
  \<^verbatim>\<open>all_tasks\<close> into \<^verbatim>\<open>completed_tasks\<close>; this is the measure of the loop.
\<close>

lemma dict_set_values: "snd ` set (dict_set d k v) \<subseteq> insert v (snd ` set d)"
  by (induction d k v rule: dict_set.induct) auto

lemma ref_to_task_dict_values:
  "ref_to_task_dict h ts d = Inr d' \<Longrightarrow> snd ` set d' \<subseteq> snd ` set d \<union> set ts"
proof (induction ts arbitrary: d)
  case Nil
  then show ?case by simp
next
  case (Cons t ts)
  then obtain r where r: "get_ref (h t) = Inr r"
    and rec: "ref_to_task_dict h ts (dict_set d r t) = Inr d'"
    by (auto split: sum.splits)
  from Cons.IH [OF rec] dict_set_values [of d r t] show ?case by auto
qed

lemma get_next_completed_task_member:
  assumes "get_next_completed_task rt h tasks = Returns (t, r)"
  shows "t \<in> set tasks"
proof -
  from assms obtain d where d: "ref_to_task_dict h tasks [] = Inr d" and m: "map_of d r = Some t"
    by (auto simp: get_next_completed_task_def split: if_splits sum.splits option.splits)
  from m have "(r, t) \<in> set d" by (rule map_of_SomeD)
  then have "t \<in> snd ` set d" by force
  with ref_to_task_dict_values [OF d] show ?thesis by auto
qed

lemma loop_body_Returns:
  assumes "loop_body rt all_tasks deps s = Returns s'"
  shows "\<exists>next. next \<in> set (not_completed_tasks s)
           \<and> completed_tasks s' = completed_tasks s @ [next]
           \<and> not_completed_tasks s' = filter (\<lambda>task. task \<notin> set (completed_tasks s')) all_tasks"
proof -
  let ?can = "filter (\<lambda>task. task_can_run task (completed_tasks s) deps) (not_completed_tasks s)"
  from assms obtain heap' t r where g: "get_next_completed_task rt heap' ?can = Returns (t, r)"
    and s': "s' = \<lparr>iteration_nr = iteration_nr s + 1, completed_tasks = completed_tasks s @ [t],
                   not_completed_tasks = filter (\<lambda>task. task \<notin> set (completed_tasks s @ [t])) all_tasks,
                   heap = heap', finished = insert r (finished s)\<rparr>"
    by (auto simp: loop_body_def Let_def split: if_splits sum.splits outcome.splits)
  from get_next_completed_task_member [OF g] have "t \<in> set (not_completed_tasks s)" by simp
  with s' show ?thesis by simp
qed

definition loop_measure :: "task_ref list \<Rightarrow> run_state \<Rightarrow> nat" where
  "loop_measure all_tasks s =
     (if not_completed_tasks s = filter (\<lambda>task. task \<notin> set (completed_tasks s)) all_tasks
      then length (not_completed_tasks s) else Suc (length all_tasks))"

lemma loop_measure_decreases:
  assumes "loop_body rt all_tasks deps s = Returns s'"
  shows "loop_measure all_tasks s' < loop_measure all_tasks s"
proof -
  from loop_body_Returns [OF assms] obtain t where t: "t \<in> set (not_completed_tasks s)"
    and c: "completed_tasks s' = completed_tasks s @ [t]"
    and n: "not_completed_tasks s' = filter (\<lambda>task. task \<notin> set (completed_tasks s')) all_tasks"
    by blast
  from n have m': "loop_measure all_tasks s' = length (not_completed_tasks s')"
    by (simp add: loop_measure_def)
  show ?thesis
  proof (cases "not_completed_tasks s = filter (\<lambda>task. task \<notin> set (completed_tasks s)) all_tasks")
    case True
    then have m: "loop_measure all_tasks s = length (not_completed_tasks s)"
      by (simp add: loop_measure_def)
    have "not_completed_tasks s' = filter (\<lambda>task. task \<noteq> t) (not_completed_tasks s)"
      using n c True by (auto intro: filter_cong)
    moreover have "length (filter (\<lambda>task. task \<noteq> t) (not_completed_tasks s)) < length (not_completed_tasks s)"
      using t by (intro length_filter_less [of t]) auto
    ultimately show ?thesis using m m' by simp
  next
    case False
    then have "loop_measure all_tasks s = Suc (length all_tasks)"
      by (simp add: loop_measure_def)
    moreover have "length (not_completed_tasks s') \<le> length all_tasks"
      using n by simp
    ultimately show ?thesis using m' by simp
  qed
qed

function run_loop :: "'a ray \<Rightarrow> task_ref list \<Rightarrow> Edge list \<Rightarrow> run_state \<Rightarrow> run_state outcome" where
  "run_loop rt all_tasks task_dependencies s =
     (if length (not_completed_tasks s) > 0 then
        (case loop_body rt all_tasks task_dependencies s of
           Raises e \<Rightarrow> Raises e
         | Blocks_forever \<Rightarrow> Blocks_forever
         | Returns s' \<Rightarrow> run_loop rt all_tasks task_dependencies s')
      else Returns s)"
  by pat_completeness auto
termination
  by (relation "measure (\<lambda>(rt, all_tasks, task_dependencies, s). loop_measure all_tasks s)")
     (auto simp: loop_measure_decreases)

declare run_loop.simps [simp del]

text \<open>
  \<^verbatim>\<open>all(task.has_completed() for task in all_tasks)\<close> stops at the first task that has
  not completed; the list comprehension of the return statement stops at the first
  \<^verbatim>\<open>result()\<close> that raises.
\<close>

fun all_has_completed :: "object_ref set \<Rightarrow> (task_ref \<Rightarrow> Task) \<Rightarrow> task_ref list \<Rightarrow> error + bool" where
  "all_has_completed fin h [] = Inr True"
| "all_has_completed fin h (task # tasks) =
     (case has_completed fin (h task) of
        Inl e \<Rightarrow> Inl e
      | Inr c \<Rightarrow> if c then all_has_completed fin h tasks else Inr False)"

fun results :: "'a ray \<Rightarrow> object_ref set \<Rightarrow> (task_ref \<Rightarrow> Task) \<Rightarrow> task_ref list \<Rightarrow> error + 'a list" where
  "results rt fin h [] = Inr []"
| "results rt fin h (t # ts) =
     (case result rt fin (h t) of
        Inl e \<Rightarrow> Inl e
      | Inr v \<Rightarrow> (case results rt fin h ts of Inl e \<Rightarrow> Inl e | Inr vs \<Rightarrow> Inr (v # vs)))"

definition initial_state :: "(task_ref \<Rightarrow> Task) \<Rightarrow> task_ref list \<Rightarrow> run_state" where
  "initial_state h all_tasks =
     \<lparr>iteration_nr = 0, completed_tasks = [], not_completed_tasks = all_tasks,
      heap = h, finished = {}\<rparr>"

definition run_tasks :: "'a ray \<Rightarrow> (task_ref \<Rightarrow> Task) \<Rightarrow> task_ref list \<Rightarrow> Edge list \<Rightarrow> 'a list outcome" where
  "run_tasks rt h all_tasks task_dependencies =
     (if \<not> list_all (\<lambda>task. \<not> has_started (h task)) all_tasks then Raises AssertionError
      else (case run_loop rt all_tasks task_dependencies (initial_state h all_tasks) of
              Raises e \<Rightarrow> Raises e
            | Blocks_forever \<Rightarrow> Blocks_forever
            | Returns s \<Rightarrow>
                (case all_has_completed (finished s) (heap s) all_tasks of
                   Inl e \<Rightarrow> Raises e
                 | Inr c \<Rightarrow>
                     if \<not> c then Raises AssertionError
                     else (case results rt (finished s) (heap s) (completed_tasks s) of
                             Inl e \<Rightarrow> Raises e
                           | Inr rs \<Rightarrow> Returns rs))))"

lemma start_bound:
  "future_or_none self = Some r \<Longrightarrow> start self args = Inl (Exception ''Task has already started'')"
  by (simp add: start_def has_started_def)

lemma run_ops_bound: "future_or_none self = Some r \<Longrightarrow> run_ops ops self = (self, 0)"
proof (induction ops)
  case Nil
  show ?case by simp
next
  case (Cons op ops)
  then have "apply_op op self = (self, 0)"
    by (cases op) (simp_all add: start_bound)
  with Cons show ?case by simp
qed

lemma run_ops_count: "snd (run_ops ops self) \<le> 1"
proof (induction ops arbitrary: self)
  case Nil
  show ?case by simp
next
  case (Cons op ops)
  show ?case
  proof (cases "\<exists>args. op = Start args \<and> \<not> has_started self")
    case True
    then obtain args where op: "op = Start args" and ns: "\<not> has_started self" by blast
    let ?self' = "self\<lparr>future_or_none := Some (f_remote self args)\<rparr>"
    have a: "apply_op op self = (?self', 1)" using op ns by (simp add: start_def)
    have "run_ops ops ?self' = (?self', 0)" by (rule run_ops_bound) simp
    with a show ?thesis by simp
  next
    case False
    then have "apply_op op self = (self, 0)"
      by (cases op) (auto simp: start_def)
    with Cons.IH [of self] show ?thesis by (simp split: prod.splits)
  qed
qed

definition started :: "'a ray \<Rightarrow> Task \<Rightarrow> Task" where
  "started rt self = self\<lparr>future_or_none := Some (f_remote self [ray_put_empty_dict rt])\<rparr>"

lemma start_tasks_total:
  "\<exists>h'. start_tasks rt h tasks = Inr h'
     \<and> (\<forall>t. h' t = (if t \<in> set tasks \<and> \<not> has_started (h t) then started rt (h t) else h t))"
proof (induction tasks arbitrary: h)
  case Nil
  show ?case by simp
next
  case (Cons task tasks)
  show ?case
  proof (cases "has_started (h task)")
    case True
    with Cons.IH [of h] show ?thesis by auto
  next
    case False
    let ?h = "h(task := started rt (h task))"
    from Cons.IH [of ?h] obtain h' where h': "start_tasks rt ?h tasks = Inr h'"
      and eq: "\<And>t. h' t = (if t \<in> set tasks \<and> \<not> has_started (?h t) then started rt (?h t) else ?h t)"
      by blast
    have st: "has_started (started rt (h task))" by (simp add: started_def has_started_def)
    have "start_tasks rt h (task # tasks) = Inr h'"
      using False h' by (simp add: start_def started_def)
    moreover have "h' t = (if t \<in> set (task # tasks) \<and> \<not> has_started (h t) then started rt (h t) else h t)" for t
      using eq [of t] False st by auto
    ultimately show ?thesis by blast
  qed
qed












subsection \<open>A concrete runtime and heap for the closed examples\<close>

text \<open>
  A runtime whose blocking wait reports the first handle of the list and whose
  \<^verbatim>\<open>ray.get\<close> yields the handle plus 1000, and a heap of unstarted tasks whose remote
  callable returns the handle \<open>100 + t\<close>.
\<close>

definition example_ray :: "nat ray" where
  "example_ray =
     \<lparr>ray_put_empty_dict = 0,
      ray_wait = (\<lambda>refs. case refs of [] \<Rightarrow> None | r # _ \<Rightarrow> Some r),
      ray_get = (\<lambda>r. Inr (r + 1000))\<rparr>"

definition example_heap :: "task_ref \<Rightarrow> Task" where
  "example_heap t = \<lparr>f_remote = (\<lambda>args. 100 + t), future_or_none = None\<rparr>"

subsection \<open>C4: one result per task after exactly as many iterations as tasks\<close>





subsection \<open>C1: a blocked dependency graph\<close>

text \<open>
  Claim C1 says that \<open>run_tasks\<close> fails with the exception
  \<^verbatim>\<open>"Check run dependencies, unable to start any task!"\<close> when no task can run in the
  first iteration. The source tests \<^verbatim>\<open>iteration_nr == 0\<close> after
  \<^verbatim>\<open>iteration_nr += 1\<close>, so the test is never true: with no runnable task nothing is
  started, and \<open>get_next_completed_task\<close> is called on the empty list, where its first
  assertion fails. On every non-empty list of unstarted tasks none of which can run,
  \<open>run_tasks\<close> raises \<^verbatim>\<open>AssertionError\<close>.
\<close>

theorem run_tasks_blocked_graph_assertion_error:
  assumes "all_tasks \<noteq> []"
    and "\<forall>task\<in>set all_tasks. \<not> has_started (h task)"
    and "\<forall>task\<in>set all_tasks. \<not> task_can_run task [] deps"
  shows "run_tasks rt h all_tasks deps = Raises AssertionError"
proof -
  from assms(3) have none: "filter (\<lambda>task. task_can_run task [] deps) all_tasks = []"
    by (simp add: filter_empty_conv)
  have "loop_body rt all_tasks deps (initial_state h all_tasks) = Raises AssertionError"
    by (simp add: loop_body_def initial_state_def none get_next_completed_task_def)
  with assms(1) have "run_loop rt all_tasks deps (initial_state h all_tasks) = Raises AssertionError"
    by (subst run_loop.simps) (simp add: initial_state_def)
  with assms(2) show ?thesis by (simp add: run_tasks_def list_all_iff)
qed

theorem run_tasks_blocked_graph_assertion_error_witness:
  "run_tasks example_ray example_heap [0, 1]
     [\<lparr>from_node = 0, to_node = 1\<rparr>, \<lparr>from_node = 1, to_node = 0\<rparr>] = Raises AssertionError
   \<and> Raises AssertionError
       \<noteq> (Raises (Exception ''Check run dependencies, unable to start any task!'') :: nat list outcome)
   \<and> \<not> task_can_run 0 [] [\<lparr>from_node = 0, to_node = 1\<rparr>, \<lparr>from_node = 1, to_node = 0\<rparr>]
   \<and> \<not> task_can_run 1 [] [\<lparr>from_node = 0, to_node = 1\<rparr>, \<lparr>from_node = 1, to_node = 0\<rparr>]"
proof -
  have 1: "[0, 1::nat] \<noteq> []" by simp
  have 2: "\<forall>task\<in>set [0, 1]. \<not> has_started (example_heap task)"
    by (simp add: example_heap_def has_started_def)
  have 3: "\<forall>task\<in>set [0, 1].
      \<not> task_can_run task [] [\<lparr>from_node = 0, to_node = 1\<rparr>, \<lparr>from_node = 1, to_node = 0\<rparr>]"
    by (simp add: task_can_run_def)
  from run_tasks_blocked_graph_assertion_error [OF 1 2 3, of example_ray] 3
  show ?thesis by simp
qed

subsection \<open>C8: a bound handle is never rebound\<close>

lemma loop_body_keeps_handles:
  assumes "loop_body rt all_tasks deps s = Returns s'"
    and "future_or_none (heap s t) = Some r"
  shows "future_or_none (heap s' t) = Some r"
proof -
  let ?can = "filter (\<lambda>task. task_can_run task (completed_tasks s) deps) (not_completed_tasks s)"
  from start_tasks_total [of rt "heap s" ?can] obtain h' where
      h': "start_tasks rt (heap s) ?can = Inr h'"
      and h'eq: "\<And>t. h' t = (if t \<in> set ?can \<and> \<not> has_started (heap s t) then started rt (heap s t) else heap s t)"
    by blast
  from assms(1) h' have "heap s' = h'"
    by (auto simp: loop_body_def Let_def split: if_splits outcome.splits)
  moreover from assms(2) have "has_started (heap s t)" by (simp add: has_started_def)
  ultimately show ?thesis using h'eq [of t] assms(2) by simp
qed

lemma run_loop_keeps_handles:
  assumes "run_loop rt all_tasks deps s = Returns s'"
    and "future_or_none (heap s t) = Some r"
  shows "future_or_none (heap s' t) = Some r"
  using assms
proof (induction rt all_tasks deps s rule: run_loop.induct)
  case (1 rt all_tasks deps s)
  show ?case
  proof (cases "not_completed_tasks s = []")
    case True
    with "1.prems" show ?thesis by (simp add: run_loop.simps [of _ _ _ s])
  next
    case False
    with "1.prems"(1) obtain s1 where b: "loop_body rt all_tasks deps s = Returns s1"
      and r: "run_loop rt all_tasks deps s1 = Returns s'"
      by (auto simp: run_loop.simps [of _ _ _ s] split: outcome.splits)
    from False have "0 < length (not_completed_tasks s)" by simp
    from "1.IH" [OF this b r loop_body_keeps_handles [OF b "1.prems"(2)]] show ?thesis .
  qed
qed

text \<open>
  Claim C8. On a Task whose handle is bound, \<open>start\<close> raises "Task has already started"
  and every sequence of operations leaves the object as it is, binding nothing. From any
  Task, a sequence of operations binds a handle at most once. The scheduler's start loop
  never raises, because it calls \<open>start\<close> only where \<open>has_started\<close> is false, and it
  keeps every handle that was bound before; so does the whole loop of \<open>run_tasks\<close>.
\<close>

theorem task_future_never_rebound:
  "(future_or_none self = Some r \<longrightarrow>
      start self args = Inl (Exception ''Task has already started'')
      \<and> run_ops ops self = (self, 0))
   \<and> snd (run_ops ops self) \<le> 1
   \<and> (\<exists>h'. start_tasks rt h tasks = Inr h'
         \<and> (\<forall>t r. future_or_none (h t) = Some r \<longrightarrow> future_or_none (h' t) = Some r))
   \<and> (\<forall>s' t r. run_loop rt all_tasks deps s = Returns s' \<and> future_or_none (heap s t) = Some r
         \<longrightarrow> future_or_none (heap s' t) = Some r)"
proof (intro conjI impI allI)
  assume "future_or_none self = Some r"
  then show "start self args = Inl (Exception ''Task has already started'')"
    by (rule start_bound)
next
  assume "future_or_none self = Some r"
  then show "run_ops ops self = (self, 0)" by (rule run_ops_bound)
next
  show "snd (run_ops ops self) \<le> 1" by (rule run_ops_count)
next
  from start_tasks_total [of rt h tasks] obtain h' where
      h': "start_tasks rt h tasks = Inr h'"
      and h'eq: "\<And>t. h' t = (if t \<in> set tasks \<and> \<not> has_started (h t) then started rt (h t) else h t)"
    by blast
  have "future_or_none (h' t) = Some r" if "future_or_none (h t) = Some r" for t r
    using h'eq [of t] that by (simp add: has_started_def)
  with h' show "\<exists>h'. start_tasks rt h tasks = Inr h'
         \<and> (\<forall>t r. future_or_none (h t) = Some r \<longrightarrow> future_or_none (h' t) = Some r)"
    by blast
next
  fix s' t r
  assume "run_loop rt all_tasks deps s = Returns s' \<and> future_or_none (heap s t) = Some r"
  then show "future_or_none (heap s' t) = Some r"
    using run_loop_keeps_handles by blast
qed

theorem task_future_never_rebound_witness:
  "future_or_none (started example_ray (example_heap 0)) = Some 100
   \<and> start (started example_ray (example_heap 0)) [5]
       = Inl (Exception ''Task has already started'')
   \<and> run_ops [Start [1], Get_ref, Start [2]] (started example_ray (example_heap 0))
       = (started example_ray (example_heap 0), 0)
   \<and> snd (run_ops [Start [1], Get_ref, Start [2]] (example_heap 0)) = 1
   \<and> future_or_none (fst (run_ops [Start [1], Get_ref, Start [2]] (example_heap 0))) = Some 100"
proof -
  have b: "future_or_none (started example_ray (example_heap 0)) = Some 100"
    by (simp add: started_def example_heap_def)
  have c: "run_ops [Start [1], Get_ref, Start [2]] (example_heap 0)
            = (example_heap 0\<lparr>future_or_none := Some 100\<rparr>, 1)"
    by (simp add: start_def has_started_def example_heap_def)
  from task_future_never_rebound
         [of "started example_ray (example_heap 0)" 100 "[5]" "[Start [1], Get_ref, Start [2]]"]
       b
  have "start (started example_ray (example_heap 0)) [5]
          = Inl (Exception ''Task has already started'')
        \<and> run_ops [Start [1], Get_ref, Start [2]] (started example_ray (example_heap 0))
          = (started example_ray (example_heap 0), 0)"
    by blast
  with b c show ?thesis by simp
qed

section \<open>opentelemetry\_task\_span\_parser.py: the data model\<close>

text \<open>
  Python values that occur as span attributes and as decoded contents. A float is carried
  by its \<^verbatim>\<open>repr\<close>, a decoded JSON document by its text; neither is inspected by the
  parser. Span attributes are scalars: int, float, bool or str.
\<close>

datatype attr_value = AInt int | AFloat string | ABool bool | AStr string

datatype pyval =
    PNone | PBool bool | PInt int | PFloat string | PStr string | PBytes string | PJson string

fun to_py :: "attr_value \<Rightarrow> pyval" where
  "to_py (AInt i) = PInt i"
| "to_py (AFloat r) = PFloat r"
| "to_py (ABool b) = PBool b"
| "to_py (AStr s) = PStr s"

text \<open>A closed span, with the fields of the persisted trace format.\<close>

record Event =
  event_name :: string
  timestamp :: string
  event_attributes :: "(string \<times> attr_value) list"

record Span =
  span_id :: string
  name :: string
  start_time :: string
  end_time :: string
  status_code :: string
  attributes :: "(string \<times> attr_value) list"
  events :: "Event list"

text \<open>
  \<^verbatim>\<open>d[k]\<close> on a dict raises \<^verbatim>\<open>KeyError\<close> on a missing key; \<^verbatim>\<open>{**a, **b}\<close> and
  \<^verbatim>\<open>dict(pairs)\<close> store the entries in order.
\<close>

definition dict_get :: "(string \<times> 'v) list \<Rightarrow> string \<Rightarrow> error + 'v" where
  "dict_get d k = (case map_of d k of None \<Rightarrow> Inl (KeyError k) | Some v \<Rightarrow> Inr v)"

definition dict_of :: "('k \<times> 'v) list \<Rightarrow> ('k \<times> 'v) list" where
  "dict_of pairs = fold (\<lambda>(k, v) d. dict_set d k v) pairs []"

definition dict_merge :: "('k \<times> 'v) list \<Rightarrow> ('k \<times> 'v) list \<Rightarrow> ('k \<times> 'v) list" where
  "dict_merge a b = fold (\<lambda>(k, v) d. dict_set d k v) b a"

subsection \<open>ArtifactContent and LoggedValueContent\<close>

text \<open>
  The two pydantic models. A \<^verbatim>\<open>StrictStr\<close> field accepts a str only; the validator of
  \<^verbatim>\<open>type\<close> asserts membership in a list of tags; a failed field or validator makes the
  constructor raise \<^verbatim>\<open>ValidationError\<close>. The content of an artifact is
  \<^verbatim>\<open>Union[StrictStr, StrictBytes]\<close>, the content of a logged value is \<^verbatim>\<open>Any\<close>.
\<close>

record ArtifactContent =
  type :: string
  content :: pyval

record LoggedValueContent =
  type :: string
  content :: pyval

definition ArtifactContent_new :: "pyval \<Rightarrow> pyval \<Rightarrow> error + ArtifactContent" where
  "ArtifactContent_new type_arg content_arg =
     (case type_arg of
        PStr v \<Rightarrow>
          if v \<in> set [''utf-8'', ''bytes''] then
            (case content_arg of
               PStr s \<Rightarrow> Inr \<lparr>ArtifactContent.type = v, ArtifactContent.content = PStr s\<rparr>
             | PBytes b \<Rightarrow> Inr \<lparr>ArtifactContent.type = v, ArtifactContent.content = PBytes b\<rparr>
             | _ \<Rightarrow> Inl ValidationError)
          else Inl ValidationError
      | _ \<Rightarrow> Inl ValidationError)"

definition LoggedValueContent_new :: "pyval \<Rightarrow> pyval \<Rightarrow> error + LoggedValueContent" where
  "LoggedValueContent_new type_arg content_arg =
     (case type_arg of
        PStr v \<Rightarrow>
          if v \<in> set [''utf-8'', ''bytes'', ''float'', ''bool'', ''json'', ''int'']
          then Inr \<lparr>LoggedValueContent.type = v, LoggedValueContent.content = content_arg\<rparr>
          else Inl ValidationError
      | _ \<Rightarrow> Inl ValidationError)"

subsection \<open>Timing, TaskRunSummary, PipelineSummary\<close>

record Timing =
  start_time_iso8601 :: string
  end_time_iso8601 :: string

record TaskRunSummary =
  span_id :: string
  parent_span_id :: string
  task_id :: string
  exceptions :: "Event list"
  attributes :: "(string \<times> attr_value) list"
  timing :: Timing
  logged_values :: "(string \<times> LoggedValueContent) list"
  logged_artifacts :: "(string \<times> ArtifactContent) list"

record PipelineSummary =
  span_id :: string
  timing :: Timing
  attributes :: "(string \<times> attr_value) list"
  task_runs :: "TaskRunSummary list"
  task_dependencies :: "(attr_value \<times> attr_value) set"

definition TaskRunSummary_is_success :: "TaskRunSummary \<Rightarrow> bool" where
  "TaskRunSummary_is_success self = (length (exceptions self) = 0)"

definition PipelineSummary_is_success :: "PipelineSummary \<Rightarrow> bool" where
  "PipelineSummary_is_success self =
     list_all (\<lambda>task_run. TaskRunSummary_is_success task_run) (task_runs self)"

subsection \<open>C9: success of a pipeline and of a task run\<close>

text \<open>
  Claim C9. \<open>PipelineSummary_is_success\<close> is true exactly when every TaskRunSummary of
  \<open>task_runs\<close> is successful, and a TaskRunSummary is successful exactly when its list of
  exceptions is empty.
\<close>

theorem PipelineSummary_is_success_iff:
  "(PipelineSummary_is_success p \<longleftrightarrow> (\<forall>r\<in>set (task_runs p). TaskRunSummary_is_success r))
   \<and> (TaskRunSummary_is_success r \<longleftrightarrow> exceptions r = [])"
  by (simp add: PipelineSummary_is_success_def TaskRunSummary_is_success_def list_all_iff)

section \<open>opentelemetry\_task\_span\_parser.py: the parser\<close>

subsection \<open>Helpers that are not among the sources\<close>

text \<open>
  Modelled from the spec: \<^verbatim>\<open>Spans.filter(keys, value)\<close> of \<^verbatim>\<open>opentelemetry_helpers\<close>,
  which is not among the sources. The spec reads \<^verbatim>\<open>filter(["name"], n)\<close> as "every span
  named n" and \<^verbatim>\<open>filter(["status", "status_code"], "OK")\<close> as "with status OK": the
  spans whose entry under the key path equals the value are kept, in order.
\<close>

definition read_key :: "Span \<Rightarrow> string list \<Rightarrow> string option" where
  "read_key span keys =
     (if keys = [''name''] then Some (name span)
      else if keys = [''status'', ''status_code''] then Some (status_code span)
      else if keys = [''context'', ''span_id''] then Some (Span.span_id span)
      else if keys = [''start_time''] then Some (start_time span)
      else if keys = [''end_time''] then Some (end_time span)
      else None)"

definition Spans_filter :: "string list \<Rightarrow> string \<Rightarrow> Span list \<Rightarrow> Span list" where
  "Spans_filter keys v spans = filter (\<lambda>span. read_key span keys = Some v) spans"

text \<open>
  Modelled from the spec: \<^verbatim>\<open>Spans.sort_by_start_time()\<close> of \<^verbatim>\<open>opentelemetry_helpers\<close>,
  which is not among the sources. The spec says "sorted by start time"; the timestamps
  are ISO-8601 strings and are compared as strings.
\<close>

definition sort_by_start_time :: "Span list \<Rightarrow> Span list" where
  "sort_by_start_time spans = sort_key start_time spans"

text \<open>
  The remaining helpers are parameters of the parser: \<^verbatim>\<open>Spans.get_attributes\<close> with one
  allowed prefix, \<^verbatim>\<open>Spans.bound_under\<close>, \<^verbatim>\<open>Spans.bound_inclusive\<close>,
  \<^verbatim>\<open>Spans.exception_events\<close>, \<^verbatim>\<open>SerializedData(type, encoding, encoded_content).decode()\<close>
  and \<^verbatim>\<open>convert_ipynb_to_html\<close>. Those that can raise return a sum. \<^verbatim>\<open>SerializedData\<close>
  is taken to hold its three fields as given, so that a failure of the decoder shows when
  \<^verbatim>\<open>decode()\<close> is called.
\<close>

record spans_api =
  get_attributes :: "Span list \<Rightarrow> string \<Rightarrow> error + (string \<times> attr_value) list"
  bound_under :: "Span list \<Rightarrow> Span \<Rightarrow> Span list"
  bound_inclusive :: "Span list \<Rightarrow> Span \<Rightarrow> Span list"
  exception_events :: "Span list \<Rightarrow> Event list"
  decode :: "attr_value \<Rightarrow> attr_value \<Rightarrow> attr_value \<Rightarrow> error + pyval"
  convert_ipynb_to_html :: "pyval \<Rightarrow> error + pyval"

subsection \<open>Python built-ins on strings\<close>

text \<open>
  \<^verbatim>\<open>str(x)\<close> of a scalar, \<^verbatim>\<open>s.replace(pat, "")\<close>, \<^verbatim>\<open>s.split("/")[-1]\<close>,
  \<^verbatim>\<open>s.startswith(p)\<close>, and \<^verbatim>\<open>min\<close> and \<^verbatim>\<open>max\<close> of a sequence of strings, which raise
  \<^verbatim>\<open>ValueError\<close> on an empty sequence. Strings are compared lexicographically by
  character code.
\<close>

function str_nat :: "nat \<Rightarrow> string" where
  "str_nat n = (if n < 10 then [char_of (48 + n)] else str_nat (n div 10) @ [char_of (48 + n mod 10)])"
  by pat_completeness auto
termination
  by (relation "measure (\<lambda>n. n)") auto

declare str_nat.simps [simp del]

definition py_str :: "attr_value \<Rightarrow> string" where
  "py_str v =
     (case v of
        AStr s \<Rightarrow> s
      | AInt i \<Rightarrow> (if i < 0 then ''-'' @ str_nat (nat (- i)) else str_nat (nat i))
      | ABool b \<Rightarrow> (if b then ''True'' else ''False'')
      | AFloat r \<Rightarrow> r)"

function str_remove :: "string \<Rightarrow> string \<Rightarrow> string" where
  "str_remove pat s =
     (if s = [] \<or> pat = [] then s
      else if take (length pat) s = pat then str_remove pat (drop (length pat) s)
      else hd s # str_remove pat (tl s))"
  by pat_completeness auto
termination
  by (relation "measure (\<lambda>(pat, s). length s)") (auto simp: neq_Nil_conv)

declare str_remove.simps [simp del]

definition last_segment :: "string \<Rightarrow> string" where
  "last_segment s = rev (takeWhile (\<lambda>c. c \<noteq> CHR ''/'') (rev s))"

definition startswith :: "string \<Rightarrow> string \<Rightarrow> bool" where
  "startswith s p = (take (length p) s = p)"

definition py_min :: "string list \<Rightarrow> error + string" where
  "py_min xs =
     (case xs of [] \<Rightarrow> Inl (ValueError ''min() arg is an empty sequence'')
      | x # rest \<Rightarrow> Inr (fold (\<lambda>y m. if y < m then y else m) rest x))"

definition py_max :: "string list \<Rightarrow> error + string" where
  "py_max xs =
     (case xs of [] \<Rightarrow> Inl (ValueError ''max() arg is an empty sequence'')
      | x # rest \<Rightarrow> Inr (fold (\<lambda>y m. if y > m then y else m) rest x))"

subsection \<open>The functions of the parser\<close>

fun task_dependency_pairs :: "Span list \<Rightarrow> error + (attr_value \<times> attr_value) list" where
  "task_dependency_pairs [] = Inr []"
| "task_dependency_pairs (span # spans) =
     (case dict_get (Span.attributes span) ''from_task_span_id'' of
        Inl e \<Rightarrow> Inl e
      | Inr from_id \<Rightarrow>
          (case dict_get (Span.attributes span) ''to_task_span_id'' of
             Inl e \<Rightarrow> Inl e
           | Inr to_id \<Rightarrow>
               (case task_dependency_pairs spans of
                  Inl e \<Rightarrow> Inl e
                | Inr pairs \<Rightarrow> Inr ((from_id, to_id) # pairs))))"

definition extract_task_dependencies :: "Span list \<Rightarrow> error + (attr_value \<times> attr_value) set" where
  "extract_task_dependencies spans =
     (case task_dependency_pairs (Spans_filter [''name''] ''task-dependency'' spans) of
        Inl e \<Rightarrow> Inl e
      | Inr pairs \<Rightarrow> Inr (set pairs))"

text \<open>
  \<open>decode_data_content_span\<close> returns the dict \<^verbatim>\<open>{"name", "type", "content"}\<close> as a
  triple. The three attributes of \<^verbatim>\<open>SerializedData\<close> are read first, then the name, then
  the content is decoded.
\<close>

definition decode_data_content_span :: "spans_api \<Rightarrow> Span \<Rightarrow> error + (attr_value \<times> attr_value \<times> pyval)" where
  "decode_data_content_span api span =
     (case dict_get (Span.attributes span) ''type'' of
        Inl e \<Rightarrow> Inl e
      | Inr type_attr \<Rightarrow>
          (case dict_get (Span.attributes span) ''encoding'' of
             Inl e \<Rightarrow> Inl e
           | Inr encoding \<Rightarrow>
               (case dict_get (Span.attributes span) ''content_encoded'' of
                  Inl e \<Rightarrow> Inl e
                | Inr content_encoded \<Rightarrow>
                    (case dict_get (Span.attributes span) ''name'' of
                       Inl e \<Rightarrow> Inl e
                     | Inr name_attr \<Rightarrow>
                         (case decode api type_attr encoding content_encoded of
                            Inl e \<Rightarrow> Inl e
                          | Inr decoded \<Rightarrow> Inr (name_attr, type_attr, decoded))))))"

text \<open>
  The generator \<open>artefact_iterator_new\<close>, as the list of the pairs it yields or the first
  exception it raises; \<open>artefact_yields\<close> is one pass through the body of its loop. \<^verbatim>\<open>str(Path("notebook.ipynb").with_suffix(".html"))\<close> is
  \<^verbatim>\<open>"notebook.html"\<close>.
\<close>

definition artefact_yields :: "spans_api \<Rightarrow> Span \<Rightarrow> error + (attr_value \<times> ArtifactContent) list" where
  "artefact_yields api artefact_span =
     (case decode_data_content_span api artefact_span of
        Inl e \<Rightarrow> Inl e
      | Inr (name_attr, type_attr, decoded) \<Rightarrow>
          (case ArtifactContent_new (to_py type_attr) decoded of
             Inl e \<Rightarrow> Inl e
           | Inr artifact \<Rightarrow>
               if name_attr = AStr ''notebook.ipynb'' then
                 (if type_attr \<noteq> AStr ''utf-8'' then Inl AssertionError
                  else (case convert_ipynb_to_html api decoded of
                          Inl e \<Rightarrow> Inl e
                        | Inr html \<Rightarrow>
                            (case ArtifactContent_new (PStr ''utf-8'') html of
                               Inl e \<Rightarrow> Inl e
                             | Inr html_artifact \<Rightarrow>
                                 Inr [(name_attr, artifact),
                                      (AStr ''notebook.html'', html_artifact)])))
               else Inr [(name_attr, artifact)]))"

fun artefact_loop :: "spans_api \<Rightarrow> Span list \<Rightarrow> error + (attr_value \<times> ArtifactContent) list" where
  "artefact_loop api [] = Inr []"
| "artefact_loop api (artefact_span # rest) =
     (case artefact_yields api artefact_span of
        Inl e \<Rightarrow> Inl e
      | Inr yielded \<Rightarrow>
          (case artefact_loop api rest of
             Inl e \<Rightarrow> Inl e
           | Inr later \<Rightarrow> Inr (yielded @ later)))"

definition artefact_iterator_new :: "spans_api \<Rightarrow> Span list \<Rightarrow> Span
    \<Rightarrow> error + (attr_value \<times> ArtifactContent) list" where
  "artefact_iterator_new api spans task_run_top_span =
     artefact_loop api
       (Spans_filter [''status'', ''status_code''] ''OK''
          (Spans_filter [''name''] ''artefact'' (bound_under api spans task_run_top_span)))"

text \<open>
  The generator \<open>get_logged_named_values_new\<close>. The source annotates the name and the
  type of a logged value as \<^verbatim>\<open>str\<close>; on strings the membership test
  \<^verbatim>\<open>value_name in logged_values\<close> is equality of strings, as it is here.
  \<open>logged\<close> is the source's list
  \<^verbatim>\<open>logged_values\<close> of the names seen so far, and \<open>logged_value_yield\<close> is one pass
  through the body of its loop, returning the name it appends and the pair it yields. The spans it iterates over are \<open>logged_value_spans\<close>.
\<close>

definition duplicate_logged_value_error :: "attr_value \<Rightarrow> error" where
  "duplicate_logged_value_error value_name =
     ValueError (''Named value '' @ py_str value_name @ '' has been logged multiple times.'')"

definition logged_value_yield :: "spans_api \<Rightarrow> Span \<Rightarrow> attr_value list
    \<Rightarrow> error + (attr_value \<times> string \<times> LoggedValueContent)" where
  "logged_value_yield api logged_value_span logged =
     (if set (map fst (Span.attributes logged_value_span))
           \<noteq> {''name'', ''type'', ''encoding'', ''content_encoded''}
      then Inl AssertionError
      else
        (case dict_get (Span.attributes logged_value_span) ''name'' of
           Inl e \<Rightarrow> Inl e
         | Inr value_name \<Rightarrow>
        (case dict_get (Span.attributes logged_value_span) ''type'' of
           Inl e \<Rightarrow> Inl e
         | Inr value_type \<Rightarrow>
             if value_name \<in> set logged then Inl (duplicate_logged_value_error value_name)
             else
               (case dict_get (Span.attributes logged_value_span) ''encoding'' of
                  Inl e \<Rightarrow> Inl e
                | Inr encoding \<Rightarrow>
               (case dict_get (Span.attributes logged_value_span) ''content_encoded'' of
                  Inl e \<Rightarrow> Inl e
                | Inr content_encoded \<Rightarrow>
               (case decode api value_type encoding content_encoded of
                  Inl e \<Rightarrow> Inl e
                | Inr decoded \<Rightarrow>
               (case LoggedValueContent_new (to_py value_type) decoded of
                  Inl e \<Rightarrow> Inl e
                | Inr logged_value \<Rightarrow>
                    Inr (value_name, py_str value_name, logged_value))))))))"

fun logged_values_loop :: "spans_api \<Rightarrow> Span list \<Rightarrow> attr_value list
    \<Rightarrow> error + (string \<times> LoggedValueContent) list" where
  "logged_values_loop api [] logged = Inr []"
| "logged_values_loop api (logged_value_span # rest) logged =
     (case logged_value_yield api logged_value_span logged of
        Inl e \<Rightarrow> Inl e
      | Inr (value_name, yielded) \<Rightarrow>
          (case logged_values_loop api rest (logged @ [value_name]) of
             Inl e \<Rightarrow> Inl e
           | Inr later \<Rightarrow> Inr (yielded # later)))"

definition logged_value_spans :: "spans_api \<Rightarrow> Span list \<Rightarrow> Span \<Rightarrow> Span list" where
  "logged_value_spans api spans task_run_top_span =
     Spans_filter [''status'', ''status_code''] ''OK''
       (Spans_filter [''name''] ''named-value'' (bound_under api spans task_run_top_span))"

definition get_logged_named_values_new :: "spans_api \<Rightarrow> Span list \<Rightarrow> Span
    \<Rightarrow> error + (string \<times> LoggedValueContent) list" where
  "get_logged_named_values_new api spans task_run_top_span =
     logged_values_loop api (logged_value_spans api spans task_run_top_span) []"

text \<open>
  The constructor of \<open>TaskRunSummary\<close> with its validation: \<^verbatim>\<open>span_id\<close> must start with
  \<^verbatim>\<open>"0x"\<close>, \<^verbatim>\<open>parent_span_id\<close> and the keys of \<^verbatim>\<open>logged_artifacts\<close> must be strings.
  The other arguments the parser passes have the types of their fields.
\<close>

definition TaskRunSummary_new :: "string \<Rightarrow> attr_value \<Rightarrow> string \<Rightarrow> Event list
    \<Rightarrow> (string \<times> attr_value) list \<Rightarrow> Timing \<Rightarrow> (string \<times> LoggedValueContent) list
    \<Rightarrow> (attr_value \<times> ArtifactContent) list \<Rightarrow> error + TaskRunSummary" where
  "TaskRunSummary_new span_id_arg parent_span_id_arg task_id_arg exceptions_arg attributes_arg
       timing_arg logged_values_arg logged_artifacts_arg =
     (case parent_span_id_arg of
        AStr parent \<Rightarrow>
          if \<not> startswith span_id_arg ''0x'' then Inl ValidationError
          else if \<not> list_all (\<lambda>(k, v). case k of AStr _ \<Rightarrow> True | _ \<Rightarrow> False) logged_artifacts_arg
          then Inl ValidationError
          else Inr \<lparr>TaskRunSummary.span_id = span_id_arg,
                    parent_span_id = parent,
                    task_id = task_id_arg,
                    exceptions = exceptions_arg,
                    TaskRunSummary.attributes = attributes_arg,
                    TaskRunSummary.timing = timing_arg,
                    logged_values = logged_values_arg,
                    logged_artifacts = map (\<lambda>(k, v). (py_str k, v)) logged_artifacts_arg\<rparr>
      | _ \<Rightarrow> Inl ValidationError)"

definition PipelineSummary_new :: "attr_value \<Rightarrow> Timing \<Rightarrow> (string \<times> attr_value) list
    \<Rightarrow> TaskRunSummary list \<Rightarrow> (attr_value \<times> attr_value) set \<Rightarrow> error + PipelineSummary" where
  "PipelineSummary_new span_id_arg timing_arg attributes_arg task_runs_arg task_dependencies_arg =
     (case span_id_arg of
        AStr s \<Rightarrow> Inr \<lparr>span_id = s, timing = timing_arg, attributes = attributes_arg,
                       task_runs = task_runs_arg, task_dependencies = task_dependencies_arg\<rparr>
      | _ \<Rightarrow> Inl ValidationError)"

text \<open>One pass through the body of the loop of \<open>task_run_iterator\<close>, and the generator.\<close>

definition task_run_summary :: "spans_api \<Rightarrow> attr_value \<Rightarrow> (string \<times> attr_value) list
    \<Rightarrow> Span list \<Rightarrow> Span \<Rightarrow> error + TaskRunSummary" where
  "task_run_summary api top_span_id pipeline_attributes spans task_top_span =
     (case get_attributes api (bound_inclusive api spans task_top_span) ''task.'' of
        Inl e \<Rightarrow> Inl e
      | Inr own_attributes \<Rightarrow>
          (let task_attributes = dict_merge pipeline_attributes own_attributes
           in case dict_get task_attributes ''task.notebook'' of
                Inl e \<Rightarrow> Inl e
              | Inr (AStr notebook) \<Rightarrow>
                  (let task_id_arg = last_segment (str_remove ''.py'' notebook);
                       timing_arg = \<lparr>start_time_iso8601 = start_time task_top_span,
                                     end_time_iso8601 = end_time task_top_span\<rparr>;
                       exceptions_arg = exception_events api (bound_inclusive api spans task_top_span)
                   in case get_logged_named_values_new api spans task_top_span of
                        Inl e \<Rightarrow> Inl e
                      | Inr values \<Rightarrow>
                          (case artefact_iterator_new api spans task_top_span of
                             Inl e \<Rightarrow> Inl e
                           | Inr artifacts \<Rightarrow>
                               TaskRunSummary_new (Span.span_id task_top_span) top_span_id
                                 task_id_arg exceptions_arg task_attributes timing_arg
                                 (dict_of values) (dict_of artifacts)))
              | Inr _ \<Rightarrow> Inl (AttributeError ''replace'')))"

fun task_run_loop :: "spans_api \<Rightarrow> attr_value \<Rightarrow> (string \<times> attr_value) list
    \<Rightarrow> Span list \<Rightarrow> Span list \<Rightarrow> error + TaskRunSummary list" where
  "task_run_loop api top_span_id pipeline_attributes spans [] = Inr []"
| "task_run_loop api top_span_id pipeline_attributes spans (task_top_span # rest) =
     (case task_run_summary api top_span_id pipeline_attributes spans task_top_span of
        Inl e \<Rightarrow> Inl e
      | Inr summary \<Rightarrow>
          (case task_run_loop api top_span_id pipeline_attributes spans rest of
             Inl e \<Rightarrow> Inl e
           | Inr later \<Rightarrow> Inr (summary # later)))"

definition task_run_iterator :: "spans_api \<Rightarrow> attr_value \<Rightarrow> (string \<times> attr_value) list
    \<Rightarrow> Span list \<Rightarrow> error + TaskRunSummary list" where
  "task_run_iterator api top_span_id pipeline_attributes spans =
     task_run_loop api top_span_id pipeline_attributes spans
       (sort_by_start_time (Spans_filter [''name''] ''execute-task'' spans))"

text \<open>
  \<open>parse_spans\<close>. The argument \<open>uuid4\<close> is the string \<^verbatim>\<open>str(uuid.uuid4())\<close> that this
  call would draw: a fresh random value at every call. \<open>pipeline_top_span_id\<close> is the
  \<^verbatim>\<open>if\<close> statement that sets \<^verbatim>\<open>top_span_id\<close>. The keyword arguments of
  \<^verbatim>\<open>PipelineSummary(...)\<close> are evaluated in the order they are written.
\<close>

definition pipeline_top_span_id :: "(string \<times> attr_value) list \<Rightarrow> string \<Rightarrow> attr_value" where
  "pipeline_top_span_id pipeline_attributes uuid4 =
     (case map_of pipeline_attributes ''pipeline.pipeline_run_id'' of
        Some v \<Rightarrow> v
      | None \<Rightarrow> AStr (''NO-TOP-SPAN--TEMP'' @ uuid4))"

definition parse_spans :: "spans_api \<Rightarrow> string \<Rightarrow> Span list \<Rightarrow> error + PipelineSummary" where
  "parse_spans api uuid4 spans =
     (case get_attributes api spans ''pipeline.'' of
        Inl e \<Rightarrow> Inl e
      | Inr pipeline_attributes \<Rightarrow>
          (let top_span_id = pipeline_top_span_id pipeline_attributes uuid4
           in case extract_task_dependencies spans of
                Inl e \<Rightarrow> Inl e
              | Inr dependencies \<Rightarrow>
                  (case py_min (map start_time spans) of
                     Inl e \<Rightarrow> Inl e
                   | Inr min_start \<Rightarrow>
                       (case py_max (map end_time spans) of
                          Inl e \<Rightarrow> Inl e
                        | Inr max_end \<Rightarrow>
                            (case task_run_iterator api top_span_id pipeline_attributes spans of
                               Inl e \<Rightarrow> Inl e
                             | Inr runs \<Rightarrow>
                                 PipelineSummary_new top_span_id
                                   \<lparr>start_time_iso8601 = min_start, end_time_iso8601 = max_end\<rparr>
                                   pipeline_attributes runs dependencies)))))"

subsection \<open>A concrete instance of the helpers and example traces\<close>

text \<open>
  Modelled from the spec: an instance of the helpers of \<^verbatim>\<open>opentelemetry_helpers\<close>,
  \<^verbatim>\<open>SerializedData\<close> and \<^verbatim>\<open>convert_ipynb_to_html\<close>, none of which is among the sources;
  it is used in the closed examples only. \<open>get_attributes\<close> is the union of the attributes
  whose key has the prefix; a span bounds the other spans whose interval lies within its
  own; exception events are the events named "exception"; the decoder dispatches on the
  type tag and fails on an unrecognized tag, and here the encoded content is the content.
\<close>

definition example_get_attributes :: "Span list \<Rightarrow> string \<Rightarrow> error + (string \<times> attr_value) list" where
  "example_get_attributes spans prefix =
     Inr (dict_of (filter (\<lambda>(k, v). startswith k prefix) (concat (map Span.attributes spans))))"

definition example_bound_under :: "Span list \<Rightarrow> Span \<Rightarrow> Span list" where
  "example_bound_under spans top_span =
     filter (\<lambda>s. Span.span_id s \<noteq> Span.span_id top_span
                 \<and> start_time top_span \<le> start_time s \<and> end_time s \<le> end_time top_span) spans"

definition example_decode :: "attr_value \<Rightarrow> attr_value \<Rightarrow> attr_value \<Rightarrow> error + pyval" where
  "example_decode type_attr encoding content_encoded =
     (if type_attr \<in> set (map AStr [''utf-8'', ''bytes'', ''float'', ''bool'', ''json'', ''int''])
      then Inr (to_py content_encoded)
      else Inl (ValueError ''Unknown type''))"

definition example_api :: spans_api where
  "example_api =
     \<lparr>get_attributes = example_get_attributes,
      bound_under = example_bound_under,
      bound_inclusive = (\<lambda>spans top_span. top_span # example_bound_under spans top_span),
      exception_events =
        (\<lambda>spans. concat (map (\<lambda>s. filter (\<lambda>e. event_name e = ''exception'') (events s)) spans)),
      decode = example_decode,
      convert_ipynb_to_html = Inr\<rparr>"

definition example_task_span :: "(string \<times> attr_value) list \<Rightarrow> Span" where
  "example_task_span pipeline_attrs =
     \<lparr>Span.span_id = ''0x01'', name = ''execute-task'',
      start_time = ''2022-01-01T10:00:00'', end_time = ''2022-01-01T10:00:09'',
      status_code = ''OK'',
      Span.attributes = (''task.notebook'', AStr ''notebooks/train.py'') # pipeline_attrs,
      events = []\<rparr>"

definition example_value_span :: "string \<Rightarrow> string \<Rightarrow> (string \<times> attr_value) list \<Rightarrow> Span" where
  "example_value_span sid value_name extra_attrs =
     \<lparr>Span.span_id = sid, name = ''named-value'',
      start_time = ''2022-01-01T10:00:02'', end_time = ''2022-01-01T10:00:03'',
      status_code = ''OK'',
      Span.attributes =
        [(''name'', AStr value_name), (''type'', AStr ''utf-8''),
         (''encoding'', AStr ''utf-8''), (''content_encoded'', AStr ''hello'')] @ extra_attrs,
      events = []\<rparr>"

definition example_trace :: "(string \<times> attr_value) list \<Rightarrow> Span list" where
  "example_trace pipeline_attrs =
     [example_task_span pipeline_attrs,
      example_value_span ''0x02'' ''x'' [], example_value_span ''0x03'' ''y'' []]"

subsection \<open>C3: validation of ArtifactContent and LoggedValueContent\<close>

text \<open>
  Claim C3 says that both records accept a type tag exactly when it is one of utf-8,
  bytes, float, bool, json, int, and that the content must match the declared type.
  \<open>ArtifactContent\<close> rejects the tag float, and \<open>LoggedValueContent\<close> accepts the tag int
  with a str as content.
\<close>

theorem content_validation_counterexample:
  "ArtifactContent_new (PStr ''float'') (PStr ''1.5'') = Inl ValidationError
   \<and> LoggedValueContent_new (PStr ''int'') (PStr ''not an int'')
       = Inr \<lparr>LoggedValueContent.type = ''int'', LoggedValueContent.content = PStr ''not an int''\<rparr>"
  by (simp add: ArtifactContent_new_def LoggedValueContent_new_def)

text \<open>
  Claim C3 as amended. \<open>LoggedValueContent\<close> is constructed exactly when the type tag is
  a str among utf-8, bytes, float, bool, json, int, with any content. \<open>ArtifactContent\<close>
  is constructed exactly when the type tag is a str among utf-8, bytes and the content
  is a str or bytes. Neither compares the content with the tag; a constructed record
  holds the tag and the content it was given.
\<close>

theorem content_validation:
  "((\<exists>a. ArtifactContent_new t c = Inr a)
      \<longleftrightarrow> (\<exists>v. t = PStr v \<and> v \<in> {''utf-8'', ''bytes''}) \<and> (\<exists>s. c = PStr s \<or> c = PBytes s))
   \<and> ((\<exists>l. LoggedValueContent_new t c = Inr l)
      \<longleftrightarrow> (\<exists>v. t = PStr v
             \<and> v \<in> {''utf-8'', ''bytes'', ''float'', ''bool'', ''json'', ''int''}))
   \<and> (ArtifactContent_new t c = Inl ValidationError \<or>
        (\<exists>v. t = PStr v
           \<and> ArtifactContent_new t c = Inr \<lparr>ArtifactContent.type = v, ArtifactContent.content = c\<rparr>))
   \<and> (LoggedValueContent_new t c = Inl ValidationError \<or>
        (\<exists>v. t = PStr v
           \<and> LoggedValueContent_new t c
              = Inr \<lparr>LoggedValueContent.type = v, LoggedValueContent.content = c\<rparr>))"
proof (intro conjI)
  show "(\<exists>a. ArtifactContent_new t c = Inr a)
      \<longleftrightarrow> (\<exists>v. t = PStr v \<and> v \<in> {''utf-8'', ''bytes''}) \<and> (\<exists>s. c = PStr s \<or> c = PBytes s)"
    by (cases t; cases c) (auto simp: ArtifactContent_new_def)
  show "(\<exists>l. LoggedValueContent_new t c = Inr l)
      \<longleftrightarrow> (\<exists>v. t = PStr v
             \<and> v \<in> {''utf-8'', ''bytes'', ''float'', ''bool'', ''json'', ''int''})"
    by (cases t) (auto simp: LoggedValueContent_new_def)
  show "ArtifactContent_new t c = Inl ValidationError \<or>
        (\<exists>v. t = PStr v
           \<and> ArtifactContent_new t c = Inr \<lparr>ArtifactContent.type = v, ArtifactContent.content = c\<rparr>)"
    by (cases t; cases c) (auto simp: ArtifactContent_new_def)
  show "LoggedValueContent_new t c = Inl ValidationError \<or>
        (\<exists>v. t = PStr v
           \<and> LoggedValueContent_new t c
              = Inr \<lparr>LoggedValueContent.type = v, LoggedValueContent.content = c\<rparr>)"
    by (cases t) (auto simp: LoggedValueContent_new_def)
qed

subsection \<open>C10: the timing of the pipeline\<close>

lemma py_min_Inr: "py_min xs = Inr m \<Longrightarrow> xs \<noteq> [] \<and> m = Min (set xs)"
proof (cases xs)
  case Nil
  then show "py_min xs = Inr m \<Longrightarrow> ?thesis" by (simp add: py_min_def)
next
  case (Cons x rest)
  have "(\<lambda>y m. if y < m then y else m) = (min :: string \<Rightarrow> string \<Rightarrow> string)"
    by (auto simp: min_def fun_eq_iff)
  moreover have "fold min rest x = Min (set (x # rest))"
    by (rule Min.set_eq_fold [symmetric])
  ultimately have "fold (\<lambda>y m. if y < m then y else m) rest x = Min (set (x # rest))"
    by simp
  with Cons show "py_min xs = Inr m \<Longrightarrow> ?thesis" by (auto simp: py_min_def)
qed

lemma py_max_Inr: "py_max xs = Inr m \<Longrightarrow> xs \<noteq> [] \<and> m = Max (set xs)"
proof (cases xs)
  case Nil
  then show "py_max xs = Inr m \<Longrightarrow> ?thesis" by (simp add: py_max_def)
next
  case (Cons x rest)
  have "(\<lambda>y m. if y > m then y else m) = (max :: string \<Rightarrow> string \<Rightarrow> string)"
    by (auto simp: max_def fun_eq_iff)
  moreover have "fold max rest x = Max (set (x # rest))"
    by (rule Max.set_eq_fold [symmetric])
  ultimately have "fold (\<lambda>y m. if y > m then y else m) rest x = Max (set (x # rest))"
    by simp
  with Cons show "py_max xs = Inr m \<Longrightarrow> ?thesis" by (auto simp: py_max_def)
qed

text \<open>
  Claim C10. On the empty span collection \<open>parse_spans\<close> raises: the minimum over no
  start time is a \<^verbatim>\<open>ValueError\<close>, unless the extraction of the pipeline attributes has
  raised before. Whenever \<open>parse_spans\<close> returns a summary, the collection is not empty
  and the timing of the summary is the least start time and the greatest end time of all
  spans.
\<close>

theorem parse_spans_timing:
  "(\<exists>e. parse_spans api uuid4 [] = Inl e)
   \<and> (parse_spans api uuid4 spans = Inr summary \<longrightarrow>
        spans \<noteq> []
        \<and> start_time_iso8601 (timing summary) = Min (set (map start_time spans))
        \<and> end_time_iso8601 (timing summary) = Max (set (map end_time spans)))"
proof (rule conjI, goal_cases)
  case 1
  show "\<exists>e. parse_spans api uuid4 [] = Inl e"
    by (cases "get_attributes api [] ''pipeline.''")
       (simp_all add: parse_spans_def extract_task_dependencies_def Spans_filter_def py_min_def)
next
  case 2
  show ?case
  proof (rule impI)
  assume ok: "parse_spans api uuid4 spans = Inr summary"
  then obtain min_start max_end where mn: "py_min (map start_time spans) = Inr min_start"
    and mx: "py_max (map end_time spans) = Inr max_end"
    and t: "timing summary = \<lparr>start_time_iso8601 = min_start, end_time_iso8601 = max_end\<rparr>"
    by (auto simp: parse_spans_def PipelineSummary_new_def Let_def
             split: sum.splits attr_value.splits)
  from py_min_Inr [OF mn] py_max_Inr [OF mx] t
  show "spans \<noteq> []
        \<and> start_time_iso8601 (timing summary) = Min (set (map start_time spans))
        \<and> end_time_iso8601 (timing summary) = Max (set (map end_time spans))"
    by simp
  qed
qed

theorem parse_spans_timing_witness:
  "\<exists>summary. parse_spans example_api ''u1'' (example_trace []) = Inr summary
     \<and> example_trace [] \<noteq> []
     \<and> start_time_iso8601 (timing summary) = ''2022-01-01T10:00:00''
     \<and> end_time_iso8601 (timing summary) = ''2022-01-01T10:00:09''"
proof -
  obtain summary where s: "parse_spans example_api ''u1'' (example_trace []) = Inr summary"
    by (cases "parse_spans example_api ''u1'' (example_trace [])") (code_simp, blast)
  have mn: "Min (set (map start_time (example_trace []))) = ''2022-01-01T10:00:00''"
    by (simp add: example_trace_def example_task_span_def example_value_span_def)
  have mx: "Max (set (map end_time (example_trace []))) = ''2022-01-01T10:00:09''"
    by (simp add: example_trace_def example_task_span_def example_value_span_def)
  from parse_spans_timing [of example_api "''u1''" "example_trace []" summary] s mn mx
  show ?thesis by auto
qed

subsection \<open>C2: determinism of the parser\<close>




subsection \<open>C9: a witness\<close>

theorem PipelineSummary_is_success_iff_witness:
  "\<exists>p. parse_spans example_api ''u1'' (example_trace []) = Inr p
     \<and> list_all (\<lambda>r. exceptions r = []) (task_runs p)
     \<and> task_runs p \<noteq> []
     \<and> PipelineSummary_is_success p"
proof -
  have "case parse_spans example_api ''u1'' (example_trace []) of
          Inl e \<Rightarrow> False
        | Inr p \<Rightarrow> list_all (\<lambda>r. exceptions r = []) (task_runs p) \<and> task_runs p \<noteq> []"
    by code_simp
  then obtain p where p: "parse_spans example_api ''u1'' (example_trace []) = Inr p"
    "list_all (\<lambda>r. exceptions r = []) (task_runs p)" "task_runs p \<noteq> []"
    by (auto split: sum.splits)
  have "\<forall>r\<in>set (task_runs p). TaskRunSummary_is_success r"
  proof
    fix r assume "r \<in> set (task_runs p)"
    with p(2) have "exceptions r = []" by (simp add: list_all_iff)
    with PipelineSummary_is_success_iff [of p r] show "TaskRunSummary_is_success r" by simp
  qed
  with PipelineSummary_is_success_iff [of p] have "PipelineSummary_is_success p" by simp
  with p show ?thesis by blast
qed

subsection \<open>C5: a logged-value name that occurs twice\<close>

text \<open>
  The names of the logged values in the scope of one task run, in the order the parser
  visits them, and the test for the exception that reports a repeated name.
\<close>

definition logged_value_names :: "spans_api \<Rightarrow> Span list \<Rightarrow> Span \<Rightarrow> attr_value option list" where
  "logged_value_names api spans task_run_top_span =
     map (\<lambda>span. map_of (Span.attributes span) ''name'')
       (logged_value_spans api spans task_run_top_span)"

definition is_duplicate_logged_value_error :: "error \<Rightarrow> bool" where
  "is_duplicate_logged_value_error e =
     (case e of
        ValueError msg \<Rightarrow>
          length ''Named value '' + length '' has been logged multiple times.'' \<le> length msg
          \<and> take (length ''Named value '') msg = ''Named value ''
          \<and> drop (length msg - length '' has been logged multiple times.'') msg
              = '' has been logged multiple times.''
      | _ \<Rightarrow> False)"

lemma is_duplicate_logged_value_error_dup:
  "is_duplicate_logged_value_error (duplicate_logged_value_error n)"
  by (simp add: is_duplicate_logged_value_error_def duplicate_logged_value_error_def)

lemma logged_value_yield_Inr:
  assumes "logged_value_yield api span logged = Inr (value_name, yielded)"
  shows "map_of (Span.attributes span) ''name'' = Some value_name \<and> value_name \<notin> set logged"
  using assms
  by (auto simp: logged_value_yield_def dict_get_def split: if_splits sum.splits option.splits)

lemma logged_values_loop_Inr:
  assumes "logged_values_loop api xs logged = Inr ys"
  shows "distinct (map (\<lambda>span. map_of (Span.attributes span) ''name'') xs)
         \<and> (\<forall>span\<in>set xs. \<exists>n. map_of (Span.attributes span) ''name'' = Some n \<and> n \<notin> set logged)"
  using assms
proof (induction xs arbitrary: logged ys)
  case Nil
  show ?case by simp
next
  case (Cons x xs)
  from Cons.prems obtain value_name yielded later where
      y: "logged_value_yield api x logged = Inr (value_name, yielded)"
      and r: "logged_values_loop api xs (logged @ [value_name]) = Inr later"
    by (auto split: sum.splits)
  from logged_value_yield_Inr [OF y] have n: "map_of (Span.attributes x) ''name'' = Some value_name"
    and fresh: "value_name \<notin> set logged" by simp_all
  from Cons.IH [OF r] have d: "distinct (map (\<lambda>span. map_of (Span.attributes span) ''name'') xs)"
    and others: "\<forall>span\<in>set xs. \<exists>n. map_of (Span.attributes span) ''name'' = Some n
                   \<and> n \<notin> set (logged @ [value_name])"
    by simp_all
  from others have "Some value_name \<notin> set (map (\<lambda>span. map_of (Span.attributes span) ''name'') xs)"
    by auto
  with d n fresh others show ?case by auto
qed

lemma task_run_summary_Inr:
  assumes "task_run_summary api top_span_id pipeline_attributes spans task_top_span = Inr summary"
  shows "\<exists>values. get_logged_named_values_new api spans task_top_span = Inr values"
  using assms
  by (auto simp: task_run_summary_def Let_def split: sum.splits attr_value.splits)

lemma task_run_loop_Inr:
  assumes "task_run_loop api top_span_id pipeline_attributes spans xs = Inr runs"
    and "x \<in> set xs"
  shows "\<exists>summary. task_run_summary api top_span_id pipeline_attributes spans x = Inr summary"
  using assms
  by (induction xs arbitrary: runs) (auto split: sum.splits)

lemma parse_spans_Inr_distinct_names:
  assumes ok: "parse_spans api uuid4 spans = Inr summary"
    and top: "task_top_span \<in> set spans" "name task_top_span = ''execute-task''"
  shows "distinct (logged_value_names api spans task_top_span)"
proof -
  from ok obtain top_span_id pipeline_attributes runs where
      "task_run_iterator api top_span_id pipeline_attributes spans = Inr runs"
    by (auto simp: parse_spans_def Let_def split: sum.splits)
  then have l: "task_run_loop api top_span_id pipeline_attributes spans
                  (sort_by_start_time (Spans_filter [''name''] ''execute-task'' spans)) = Inr runs"
    by (simp add: task_run_iterator_def)
  from top have "task_top_span \<in> set (sort_by_start_time (Spans_filter [''name''] ''execute-task'' spans))"
    by (simp add: sort_by_start_time_def Spans_filter_def read_key_def)
  from task_run_loop_Inr [OF l this] task_run_summary_Inr obtain vals where
      "get_logged_named_values_new api spans task_top_span = Inr vals"
    by blast
  then have "logged_values_loop api (logged_value_spans api spans task_top_span) [] = Inr vals"
    by (simp add: get_logged_named_values_new_def)
  from logged_values_loop_Inr [OF this] show ?thesis
    by (simp add: logged_value_names_def)
qed

lemma logged_value_yield_duplicate:
  assumes keys: "set (map fst (Span.attributes span)) = {''name'', ''type'', ''encoding'', ''content_encoded''}"
    and n: "map_of (Span.attributes span) ''name'' = Some n"
    and seen: "n \<in> set logged"
  shows "logged_value_yield api span logged = Inl (duplicate_logged_value_error n)"
proof -
  from keys have "''type'' \<in> fst ` set (Span.attributes span)" by auto
  then obtain t where "map_of (Span.attributes span) ''type'' = Some t"
    by (metis map_of_eq_None_iff not_Some_eq)
  with keys n seen show ?thesis
    by (simp add: logged_value_yield_def dict_get_def)
qed

lemma logged_values_loop_append:
  assumes "logged_values_loop api pre logged = Inr ys"
  shows "logged_values_loop api (pre @ rest) logged =
           (case logged_values_loop api rest
                   (logged @ map (\<lambda>span. the (map_of (Span.attributes span) ''name'')) pre) of
              Inl e \<Rightarrow> Inl e
            | Inr zs \<Rightarrow> Inr (ys @ zs))"
  using assms
proof (induction pre arbitrary: logged ys)
  case Nil
  then show ?case by (simp split: sum.splits)
next
  case (Cons x pre)
  from Cons.prems obtain value_name yielded later where
      y: "logged_value_yield api x logged = Inr (value_name, yielded)"
      and r: "logged_values_loop api pre (logged @ [value_name]) = Inr later"
      and ys: "ys = yielded # later"
    by (auto split: sum.splits)
  from logged_value_yield_Inr [OF y] have n: "map_of (Span.attributes x) ''name'' = Some value_name"
    by simp
  from Cons.IH [OF r] y n ys show ?case by (simp split: sum.splits)
qed

lemma get_logged_named_values_new_duplicate:
  assumes L: "logged_value_spans api spans task_top_span = pre @ span # post"
    and pre: "logged_values_loop api pre [] = Inr ys"
    and keys: "set (map fst (Span.attributes span)) = {''name'', ''type'', ''encoding'', ''content_encoded''}"
    and n: "map_of (Span.attributes span) ''name'' = Some n"
    and dup: "Some n \<in> set (map (\<lambda>span. map_of (Span.attributes span) ''name'') pre)"
  shows "get_logged_named_values_new api spans task_top_span = Inl (duplicate_logged_value_error n)"
proof -
  from logged_values_loop_Inr [OF pre]
  have "\<forall>p\<in>set pre. \<exists>m. map_of (Span.attributes p) ''name'' = Some m" by blast
  with dup have "n \<in> set (map (\<lambda>span. the (map_of (Span.attributes span) ''name'')) pre)"
    by force
  then have "logged_value_yield api span
               ([] @ map (\<lambda>span. the (map_of (Span.attributes span) ''name'')) pre)
             = Inl (duplicate_logged_value_error n)"
    by (intro logged_value_yield_duplicate [OF keys n]) simp
  with logged_values_loop_append [OF pre, of "span # post"] L show ?thesis
    by (simp add: get_logged_named_values_new_def)
qed

lemma task_run_loop_append:
  assumes "task_run_loop api top_span_id pipeline_attributes spans before = Inr runs"
  shows "task_run_loop api top_span_id pipeline_attributes spans (before @ rest) =
           (case task_run_loop api top_span_id pipeline_attributes spans rest of
              Inl e \<Rightarrow> Inl e
            | Inr later \<Rightarrow> Inr (runs @ later))"
  using assms
  by (induction before arbitrary: runs) (auto split: sum.splits)

lemma parse_spans_duplicate_error:
  assumes pa: "get_attributes api spans ''pipeline.'' = Inr pipeline_attributes"
    and deps: "extract_task_dependencies spans = Inr dependencies"
    and order: "sort_by_start_time (Spans_filter [''name''] ''execute-task'' spans)
                  = before @ task_top_span # after"
    and before: "task_run_loop api (pipeline_top_span_id pipeline_attributes uuid4)
                   pipeline_attributes spans before = Inr runs"
    and own: "get_attributes api (bound_inclusive api spans task_top_span) ''task.'' = Inr own_attributes"
    and nb: "dict_get (dict_merge pipeline_attributes own_attributes) ''task.notebook''
               = Inr (AStr notebook)"
    and dup: "get_logged_named_values_new api spans task_top_span
               = Inl (duplicate_logged_value_error n)"
  shows "parse_spans api uuid4 spans = Inl (duplicate_logged_value_error n)"
proof -
  have "task_top_span \<in> set (sort_by_start_time (Spans_filter [''name''] ''execute-task'' spans))"
    by (simp add: order)
  then have "spans \<noteq> []" by (auto simp: sort_by_start_time_def Spans_filter_def)
  then obtain mn mx where mn: "py_min (map start_time spans) = Inr mn"
    and mx: "py_max (map end_time spans) = Inr mx"
    by (cases spans) (auto simp: py_min_def py_max_def)
  have "task_run_summary api (pipeline_top_span_id pipeline_attributes uuid4) pipeline_attributes
          spans task_top_span = Inl (duplicate_logged_value_error n)"
    using own nb dup by (simp add: task_run_summary_def)
  with task_run_loop_append [OF before, of "task_top_span # after"] order
  have "task_run_iterator api (pipeline_top_span_id pipeline_attributes uuid4) pipeline_attributes
          spans = Inl (duplicate_logged_value_error n)"
    by (simp add: task_run_iterator_def)
  with pa deps mn mx show ?thesis by (simp add: parse_spans_def)
qed

lemma not_duplicate_error_simps:
  "\<not> is_duplicate_logged_value_error AssertionError"
  "\<not> is_duplicate_logged_value_error ValidationError"
  "\<not> is_duplicate_logged_value_error (KeyError k)"
  "\<not> is_duplicate_logged_value_error (AttributeError a)"
  "\<not> is_duplicate_logged_value_error (Exception m)"
  "\<not> is_duplicate_logged_value_error (ValueError ''min() arg is an empty sequence'')"
  "\<not> is_duplicate_logged_value_error (ValueError ''max() arg is an empty sequence'')"
  by (simp_all add: is_duplicate_logged_value_error_def)

lemma ArtifactContent_new_Inl: "ArtifactContent_new t c = Inl e \<Longrightarrow> e = ValidationError"
  by (cases t; cases c) (auto simp: ArtifactContent_new_def split: if_splits)

lemma LoggedValueContent_new_Inl: "LoggedValueContent_new t c = Inl e \<Longrightarrow> e = ValidationError"
  by (cases t) (auto simp: LoggedValueContent_new_def split: if_splits)

lemma dict_get_Inl: "dict_get d k = Inl e \<Longrightarrow> e = KeyError k"
  by (auto simp: dict_get_def split: option.splits)

lemma dict_get_present:
  assumes "k \<in> fst ` set d"
  shows "\<exists>v. dict_get d k = Inr v \<and> map_of d k = Some v"
proof -
  from assms obtain v where "map_of d k = Some v"
    by (metis map_of_eq_None_iff not_Some_eq)
  then show ?thesis by (simp add: dict_get_def)
qed

lemma logged_value_yield_Inl:
  assumes y: "logged_value_yield api span logged = Inl e"
    and fresh: "\<forall>n. map_of (Span.attributes span) ''name'' = Some n \<longrightarrow> n \<notin> set logged"
    and dec: "\<forall>t c d e. decode api t c d = Inl e \<longrightarrow> \<not> is_duplicate_logged_value_error e"
  shows "\<not> is_duplicate_logged_value_error e"
proof (cases "set (map fst (Span.attributes span)) = {''name'', ''type'', ''encoding'', ''content_encoded''}")
  case False
  with y have "e = AssertionError"
    unfolding logged_value_yield_def by (simp only: if_True if_False simp_thms sum.inject)
  then show ?thesis by (simp add: not_duplicate_error_simps)
next
  case True
  then have k: "fst ` set (Span.attributes span) = {''name'', ''type'', ''encoding'', ''content_encoded''}"
    by simp
  from dict_get_present [of "''name''" "Span.attributes span"] k
  obtain n where gn: "dict_get (Span.attributes span) ''name'' = Inr n"
    and m: "map_of (Span.attributes span) ''name'' = Some n" by blast
  from dict_get_present [of "''type''" "Span.attributes span"] k
  obtain t where gt: "dict_get (Span.attributes span) ''type'' = Inr t" by blast
  from dict_get_present [of "''encoding''" "Span.attributes span"] k
  obtain c where gc: "dict_get (Span.attributes span) ''encoding'' = Inr c" by blast
  from dict_get_present [of "''content_encoded''" "Span.attributes span"] k
  obtain d where gd: "dict_get (Span.attributes span) ''content_encoded'' = Inr d" by blast
  from m fresh have nf: "n \<notin> set logged" by simp
  have unfold: "logged_value_yield api span logged =
      (case decode api t c d of
         Inl e \<Rightarrow> Inl e
       | Inr decoded \<Rightarrow>
           (case LoggedValueContent_new (to_py t) decoded of
              Inl e \<Rightarrow> Inl e
            | Inr logged_value \<Rightarrow> Inr (n, py_str n, logged_value)))"
    unfolding logged_value_yield_def
    by (simp only: True gn gt gc gd nf if_False simp_thms sum.case)
  show ?thesis
  proof (cases "decode api t c d")
    case (Inl e')
    with y unfold have "e = e'" by simp
    with Inl dec show ?thesis by blast
  next
    case (Inr decoded)
    with y unfold have "LoggedValueContent_new (to_py t) decoded = Inl e"
      by (simp split: sum.splits)
    from LoggedValueContent_new_Inl [OF this] show ?thesis
      by (simp add: not_duplicate_error_simps)
  qed
qed

lemma logged_values_loop_Inl:
  assumes "logged_values_loop api xs logged = Inl e"
    and "distinct (map (\<lambda>span. map_of (Span.attributes span) ''name'') xs)"
    and "\<forall>span\<in>set xs. \<forall>n. map_of (Span.attributes span) ''name'' = Some n \<longrightarrow> n \<notin> set logged"
    and dec: "\<forall>t c d e. decode api t c d = Inl e \<longrightarrow> \<not> is_duplicate_logged_value_error e"
  shows "\<not> is_duplicate_logged_value_error e"
  using assms(1-3)
proof (induction xs arbitrary: logged)
  case Nil
  then show ?case by simp
next
  case (Cons x xs)
  show ?case
  proof (cases "logged_value_yield api x logged")
    case (Inl e')
    with Cons.prems(1) have "e' = e" by simp
    with Inl Cons.prems(3) logged_value_yield_Inl [OF _ _ dec, of x logged e] show ?thesis by simp
  next
    case (Inr p)
    then obtain value_name yielded where y: "logged_value_yield api x logged = Inr (value_name, yielded)"
      by (cases p) auto
    with Cons.prems(1) have r: "logged_values_loop api xs (logged @ [value_name]) = Inl e"
      by (simp split: sum.splits)
    from logged_value_yield_Inr [OF y] have n: "map_of (Span.attributes x) ''name'' = Some value_name"
      by simp
    from Cons.prems(2) have d: "distinct (map (\<lambda>span. map_of (Span.attributes span) ''name'') xs)"
      and nx: "\<forall>span\<in>set xs. map_of (Span.attributes span) ''name'' \<noteq> Some value_name"
      using n by (auto simp: image_iff)
    have "\<forall>span\<in>set xs. \<forall>n. map_of (Span.attributes span) ''name'' = Some n
            \<longrightarrow> n \<notin> set (logged @ [value_name])"
      using Cons.prems(3) nx by auto
    from Cons.IH [OF r d this] show ?thesis .
  qed
qed

lemma decode_data_content_span_Inl:
  assumes "decode_data_content_span api span = Inl e"
    and dec: "\<forall>t c d e. decode api t c d = Inl e \<longrightarrow> \<not> is_duplicate_logged_value_error e"
  shows "\<not> is_duplicate_logged_value_error e"
  using assms
  by (auto simp: decode_data_content_span_def not_duplicate_error_simps
           split: sum.splits dest!: dict_get_Inl)

lemma artefact_yields_Inl:
  assumes "artefact_yields api span = Inl e"
    and dec: "\<forall>t c d e. decode api t c d = Inl e \<longrightarrow> \<not> is_duplicate_logged_value_error e"
    and conv: "\<forall>c e. convert_ipynb_to_html api c = Inl e \<longrightarrow> \<not> is_duplicate_logged_value_error e"
  shows "\<not> is_duplicate_logged_value_error e"
proof (cases "decode_data_content_span api span")
  case (Inl e')
  with assms(1) have "e' = e" by (simp add: artefact_yields_def)
  with Inl decode_data_content_span_Inl [OF _ dec] show ?thesis by blast
next
  case (Inr triple)
  then obtain nm t c where d: "decode_data_content_span api span = Inr (nm, t, c)"
    by (cases triple) auto
  with assms(1) conv show ?thesis
    by (auto simp: artefact_yields_def not_duplicate_error_simps
             split: sum.splits if_splits dest!: ArtifactContent_new_Inl)
qed

lemma artefact_loop_Inl:
  assumes "artefact_loop api xs = Inl e"
    and dec: "\<forall>t c d e. decode api t c d = Inl e \<longrightarrow> \<not> is_duplicate_logged_value_error e"
    and conv: "\<forall>c e. convert_ipynb_to_html api c = Inl e \<longrightarrow> \<not> is_duplicate_logged_value_error e"
  shows "\<not> is_duplicate_logged_value_error e"
  using assms(1)
proof (induction xs)
  case Nil
  then show ?case by simp
next
  case (Cons x xs)
  then show ?case
    using artefact_yields_Inl [OF _ dec conv, of x e]
    by (auto split: sum.splits)
qed

lemma TaskRunSummary_new_Inl:
  "TaskRunSummary_new a b c d e f g h = Inl err \<Longrightarrow> err = ValidationError"
  by (cases b) (auto simp: TaskRunSummary_new_def split: if_splits)

lemma PipelineSummary_new_Inl: "PipelineSummary_new a b c d e = Inl err \<Longrightarrow> err = ValidationError"
  by (cases a) (auto simp: PipelineSummary_new_def)

lemma task_dependency_pairs_Inl:
  "task_dependency_pairs xs = Inl e \<Longrightarrow> \<not> is_duplicate_logged_value_error e"
  by (induction xs)
     (auto simp: not_duplicate_error_simps split: sum.splits dest!: dict_get_Inl)

lemma task_run_summary_Inl:
  assumes s: "task_run_summary api top_span_id pipeline_attributes spans task_top_span = Inl e"
    and names: "distinct (logged_value_names api spans task_top_span)"
    and attrs: "\<forall>xs p e. get_attributes api xs p = Inl e \<longrightarrow> \<not> is_duplicate_logged_value_error e"
    and dec: "\<forall>t c d e. decode api t c d = Inl e \<longrightarrow> \<not> is_duplicate_logged_value_error e"
    and conv: "\<forall>c e. convert_ipynb_to_html api c = Inl e \<longrightarrow> \<not> is_duplicate_logged_value_error e"
  shows "\<not> is_duplicate_logged_value_error e"
proof (cases "get_attributes api (bound_inclusive api spans task_top_span) ''task.''")
  case (Inl e')
  with s have "e' = e" by (simp add: task_run_summary_def)
  with Inl attrs show ?thesis by blast
next
  case own: (Inr own_attributes)
  show ?thesis
  proof (cases "dict_get (dict_merge pipeline_attributes own_attributes) ''task.notebook''")
    case (Inl e')
    with s own have "e' = e" by (simp add: task_run_summary_def)
    with dict_get_Inl [OF Inl] show ?thesis by (simp add: not_duplicate_error_simps)
  next
    case nb: (Inr v)
    show ?thesis
    proof (cases "\<exists>notebook. v = AStr notebook")
      case False
      with s own nb have "e = AttributeError ''replace''"
        by (cases v) (simp_all add: task_run_summary_def)
      then show ?thesis by (simp add: not_duplicate_error_simps)
    next
      case True
      then obtain notebook where v: "v = AStr notebook" by blast
      show ?thesis
      proof (cases "get_logged_named_values_new api spans task_top_span")
        case (Inl e')
        with s own nb v have "e' = e" by (simp add: task_run_summary_def)
        with Inl have "logged_values_loop api (logged_value_spans api spans task_top_span) [] = Inl e"
          by (simp add: get_logged_named_values_new_def)
        from logged_values_loop_Inl [OF this _ _ dec] names show ?thesis
          by (simp add: logged_value_names_def)
      next
        case lv: (Inr vals)
        show ?thesis
        proof (cases "artefact_iterator_new api spans task_top_span")
          case (Inl e')
          with s own nb v lv have "e' = e" by (simp add: task_run_summary_def)
          with Inl artefact_loop_Inl [OF _ dec conv] show ?thesis
            by (simp add: artefact_iterator_new_def)
        next
          case (Inr artifacts)
          with s own nb v lv TaskRunSummary_new_Inl have "e = ValidationError"
            by (simp add: task_run_summary_def Let_def)
          then show ?thesis by (simp add: not_duplicate_error_simps)
        qed
      qed
    qed
  qed
qed

lemma task_run_loop_Inl:
  assumes "task_run_loop api top_span_id pipeline_attributes spans xs = Inl e"
    and "\<forall>x\<in>set xs. distinct (logged_value_names api spans x)"
    and attrs: "\<forall>xs p e. get_attributes api xs p = Inl e \<longrightarrow> \<not> is_duplicate_logged_value_error e"
    and dec: "\<forall>t c d e. decode api t c d = Inl e \<longrightarrow> \<not> is_duplicate_logged_value_error e"
    and conv: "\<forall>c e. convert_ipynb_to_html api c = Inl e \<longrightarrow> \<not> is_duplicate_logged_value_error e"
  shows "\<not> is_duplicate_logged_value_error e"
  using assms(1,2)
proof (induction xs)
  case Nil
  then show ?case by simp
next
  case (Cons x xs)
  show ?case
  proof (cases "task_run_summary api top_span_id pipeline_attributes spans x")
    case (Inl e')
    with Cons.prems(1) have "e' = e" by simp
    with Inl Cons.prems(2) task_run_summary_Inl [OF _ _ attrs dec conv] show ?thesis by simp
  next
    case (Inr summary)
    with Cons.prems(1) have "task_run_loop api top_span_id pipeline_attributes spans xs = Inl e"
      by (simp split: sum.splits)
    with Cons.IH Cons.prems(2) show ?thesis by simp
  qed
qed

lemma parse_spans_no_duplicate_error:
  assumes p: "parse_spans api uuid4 spans = Inl e"
    and names: "\<forall>task_top_span\<in>set spans. name task_top_span = ''execute-task''
                  \<longrightarrow> distinct (logged_value_names api spans task_top_span)"
    and attrs: "\<forall>xs p e. get_attributes api xs p = Inl e \<longrightarrow> \<not> is_duplicate_logged_value_error e"
    and dec: "\<forall>t c d e. decode api t c d = Inl e \<longrightarrow> \<not> is_duplicate_logged_value_error e"
    and conv: "\<forall>c e. convert_ipynb_to_html api c = Inl e \<longrightarrow> \<not> is_duplicate_logged_value_error e"
  shows "\<not> is_duplicate_logged_value_error e"
proof (cases "get_attributes api spans ''pipeline.''")
  case (Inl e')
  with p have "e' = e" by (simp add: parse_spans_def)
  with Inl attrs show ?thesis by blast
next
  case pa: (Inr pipeline_attributes)
  show ?thesis
  proof (cases "extract_task_dependencies spans")
    case (Inl e')
    with p pa have "e' = e" by (simp add: parse_spans_def)
    with Inl task_dependency_pairs_Inl show ?thesis
      by (auto simp: extract_task_dependencies_def split: sum.splits)
  next
    case deps: (Inr dependencies)
    show ?thesis
    proof (cases spans)
      case Nil
      with p pa deps have "e = ValueError ''min() arg is an empty sequence''"
        by (simp add: parse_spans_def py_min_def)
      then show ?thesis by (simp add: not_duplicate_error_simps)
    next
      case (Cons x xs)
      then obtain mn mx where mn: "py_min (map start_time spans) = Inr mn"
        and mx: "py_max (map end_time spans) = Inr mx"
        by (auto simp: py_min_def py_max_def)
      show ?thesis
      proof (cases "task_run_iterator api (pipeline_top_span_id pipeline_attributes uuid4)
                      pipeline_attributes spans")
        case (Inl e')
        with p pa deps mn mx have "e' = e" by (simp add: parse_spans_def)
        with Inl have l: "task_run_loop api (pipeline_top_span_id pipeline_attributes uuid4)
                         pipeline_attributes spans
                         (sort_by_start_time (Spans_filter [''name''] ''execute-task'' spans)) = Inl e"
          by (simp add: task_run_iterator_def)
        have "\<forall>x\<in>set (sort_by_start_time (Spans_filter [''name''] ''execute-task'' spans)).
                distinct (logged_value_names api spans x)"
          using names by (simp add: sort_by_start_time_def Spans_filter_def read_key_def)
        from task_run_loop_Inl [OF l this attrs dec conv] show ?thesis .
      next
        case (Inr runs)
        with p pa deps mn mx PipelineSummary_new_Inl have "e = ValidationError"
          by (simp add: parse_spans_def)
        then show ?thesis by (simp add: not_duplicate_error_simps)
      qed
    qed
  qed
qed

text \<open>
  A trace in which the name x is logged twice under one task; \<open>extra_attrs\<close> are added
  to the attributes of the first of the two spans.
\<close>

definition example_duplicate_trace :: "(string \<times> attr_value) list \<Rightarrow> Span list" where
  "example_duplicate_trace extra_attrs =
     [example_task_span [],
      example_value_span ''0x02'' ''x'' extra_attrs, example_value_span ''0x03'' ''x'' []]"

text \<open>
  Claim C5 says that \<open>parse_spans\<close> fails with the duplicate-logged-value error on every
  span collection in which a name is logged twice under one task. The parser asserts the
  attribute keys of each logged-value span, and decodes each value, before it reaches the
  next span: when the first of two spans with the same name has one more attribute, the
  exception is an \<^verbatim>\<open>AssertionError\<close>.
\<close>

theorem duplicate_logged_value_counterexample:
  "example_task_span [] \<in> set (example_duplicate_trace [(''unit'', AStr ''s'')])
   \<and> name (example_task_span []) = ''execute-task''
   \<and> logged_value_names example_api (example_duplicate_trace [(''unit'', AStr ''s'')])
         (example_task_span []) = [Some (AStr ''x''), Some (AStr ''x'')]
   \<and> parse_spans example_api ''u1'' (example_duplicate_trace [(''unit'', AStr ''s'')])
       = Inl AssertionError
   \<and> \<not> is_duplicate_logged_value_error AssertionError"
  by code_simp

lemma twice_not_distinct: "2 \<le> count_list xs x \<Longrightarrow> \<not> distinct xs"
proof (induction xs)
  case Nil
  then show ?case by simp
next
  case (Cons y ys)
  show ?case
  proof (cases "y = x")
    case True
    with Cons.prems have "count_list ys x \<noteq> 0" by simp
    then have "x \<in> set ys" by (simp add: count_list_0_iff)
    with True show ?thesis by simp
  next
    case False
    with Cons show ?thesis by simp
  qed
qed

text \<open>
  Claim C5 as amended. Names are strings. When a name is logged twice in status-OK spans
  named "named-value" bound under one "execute-task" span, \<open>parse_spans\<close> never returns
  a summary: it raises. The exception is the duplicate-logged-value error whenever all that
  the parser evaluates before the check of the repeated name succeeds (the pipeline
  attributes, the dependencies, the task runs sorted before this one, the attributes and
  the notebook of this task, the logged-value spans before the repeated one) and the
  repeated span has the four attribute keys. When the names under every "execute-task"
  span are distinct and no helper raises such an error itself, \<open>parse_spans\<close> raises no
  duplicate-logged-value error.
\<close>

theorem duplicate_logged_value_halts_parsing:
  "((\<exists>task_top_span\<in>set spans. name task_top_span = ''execute-task''
        \<and> 2 \<le> count_list (logged_value_names api spans task_top_span) (Some (AStr value_name)))
      \<longrightarrow> (\<exists>e. parse_spans api uuid spans = Inl e))
   \<and> (get_attributes api spans ''pipeline.'' = Inr pipeline_attributes
       \<and> extract_task_dependencies spans = Inr dependencies
       \<and> sort_by_start_time (Spans_filter [''name''] ''execute-task'' spans)
           = before @ task_top_span # after
       \<and> task_run_loop api (pipeline_top_span_id pipeline_attributes uuid)
             pipeline_attributes spans before = Inr runs
       \<and> get_attributes api (bound_inclusive api spans task_top_span) ''task.'' = Inr own_attributes
       \<and> dict_get (dict_merge pipeline_attributes own_attributes) ''task.notebook''
           = Inr (AStr notebook)
       \<and> logged_value_spans api spans task_top_span = pre @ span # post
       \<and> logged_values_loop api pre [] = Inr ys
       \<and> set (map fst (Span.attributes span)) = {''name'', ''type'', ''encoding'', ''content_encoded''}
       \<and> map_of (Span.attributes span) ''name'' = Some (AStr value_name)
       \<and> Some (AStr value_name) \<in> set (map (\<lambda>span. map_of (Span.attributes span) ''name'') pre)
      \<longrightarrow> parse_spans api uuid spans = Inl (duplicate_logged_value_error (AStr value_name)))
   \<and> ((\<forall>task_top_span\<in>set spans. name task_top_span = ''execute-task''
          \<longrightarrow> distinct (logged_value_names api spans task_top_span)
              \<and> (\<forall>x\<in>set (logged_value_names api spans task_top_span). \<exists>s. x = Some (AStr s)))
       \<and> (\<forall>xs p e. get_attributes api xs p = Inl e \<longrightarrow> \<not> is_duplicate_logged_value_error e)
       \<and> (\<forall>t c d e. decode api t c d = Inl e \<longrightarrow> \<not> is_duplicate_logged_value_error e)
       \<and> (\<forall>c e. convert_ipynb_to_html api c = Inl e \<longrightarrow> \<not> is_duplicate_logged_value_error e)
      \<longrightarrow> (\<forall>e. parse_spans api uuid spans = Inl e \<longrightarrow> \<not> is_duplicate_logged_value_error e))"
proof (rule conjI, goal_cases)
  case 1
  show ?case
  proof (rule impI)
    assume "\<exists>task_top_span\<in>set spans. name task_top_span = ''execute-task''
        \<and> 2 \<le> count_list (logged_value_names api spans task_top_span) (Some (AStr value_name))"
    then obtain t where t: "t \<in> set spans" "name t = ''execute-task''"
      and twice: "2 \<le> count_list (logged_value_names api spans t) (Some (AStr value_name))"
      by blast
    from twice have "\<not> distinct (logged_value_names api spans t)"
      by (rule twice_not_distinct)
    note t = t this
    show "\<exists>e. parse_spans api uuid spans = Inl e"
    proof (cases "parse_spans api uuid spans")
      case (Inl e)
      then show ?thesis by blast
    next
      case (Inr summary)
      from parse_spans_Inr_distinct_names [OF Inr t(1) t(2)] t(3) show ?thesis by simp
    qed
  qed
next
  case 2
  show ?case
  proof (rule conjI, goal_cases)
    case 1
    show ?case
    proof (rule impI, elim conjE)
      assume pa: "get_attributes api spans ''pipeline.'' = Inr pipeline_attributes"
        and deps: "extract_task_dependencies spans = Inr dependencies"
        and order: "sort_by_start_time (Spans_filter [''name''] ''execute-task'' spans)
                      = before @ task_top_span # after"
        and before: "task_run_loop api (pipeline_top_span_id pipeline_attributes uuid)
                       pipeline_attributes spans before = Inr runs"
        and own: "get_attributes api (bound_inclusive api spans task_top_span) ''task.'' = Inr own_attributes"
        and nb: "dict_get (dict_merge pipeline_attributes own_attributes) ''task.notebook''
                   = Inr (AStr notebook)"
        and L: "logged_value_spans api spans task_top_span = pre @ span # post"
        and pre: "logged_values_loop api pre [] = Inr ys"
        and keys: "set (map fst (Span.attributes span)) = {''name'', ''type'', ''encoding'', ''content_encoded''}"
        and n: "map_of (Span.attributes span) ''name'' = Some (AStr value_name)"
        and dup: "Some (AStr value_name)
                    \<in> set (map (\<lambda>span. map_of (Span.attributes span) ''name'') pre)"
      from get_logged_named_values_new_duplicate [OF L pre keys n dup]
      have "get_logged_named_values_new api spans task_top_span
              = Inl (duplicate_logged_value_error (AStr value_name))" .
      from parse_spans_duplicate_error [OF pa deps order before own nb this]
      show "parse_spans api uuid spans = Inl (duplicate_logged_value_error (AStr value_name))" .
    qed
  next
    case 2
    show ?case
    proof (intro impI allI, elim conjE)
      fix e
      assume names: "\<forall>task_top_span\<in>set spans. name task_top_span = ''execute-task''
          \<longrightarrow> distinct (logged_value_names api spans task_top_span)
              \<and> (\<forall>x\<in>set (logged_value_names api spans task_top_span). \<exists>s. x = Some (AStr s))"
        and attrs: "\<forall>xs p e. get_attributes api xs p = Inl e \<longrightarrow> \<not> is_duplicate_logged_value_error e"
        and dec: "\<forall>t c d e. decode api t c d = Inl e \<longrightarrow> \<not> is_duplicate_logged_value_error e"
        and conv: "\<forall>c e. convert_ipynb_to_html api c = Inl e \<longrightarrow> \<not> is_duplicate_logged_value_error e"
        and p: "parse_spans api uuid spans = Inl e"
      from names have "\<forall>task_top_span\<in>set spans. name task_top_span = ''execute-task''
          \<longrightarrow> distinct (logged_value_names api spans task_top_span)"
        by blast
      from parse_spans_no_duplicate_error [OF p this attrs dec conv]
      show "\<not> is_duplicate_logged_value_error e" .
    qed
  qed
qed

lemma example_api_raises_no_duplicate_error:
  "\<forall>xs p e. get_attributes example_api xs p = Inl e \<longrightarrow> \<not> is_duplicate_logged_value_error e"
  "\<forall>t c d e. decode example_api t c d = Inl e \<longrightarrow> \<not> is_duplicate_logged_value_error e"
  "\<forall>c e. convert_ipynb_to_html example_api c = Inl e \<longrightarrow> \<not> is_duplicate_logged_value_error e"
  by (auto simp: example_api_def example_get_attributes_def example_decode_def
        is_duplicate_logged_value_error_def split: if_splits)

theorem duplicate_logged_value_halts_parsing_witness:
  "count_list (logged_value_names example_api (example_duplicate_trace []) (example_task_span []))
       (Some (AStr ''x'')) = 2
   \<and> (\<exists>e. parse_spans example_api ''u1'' (example_duplicate_trace []) = Inl e)
   \<and> parse_spans example_api ''u1'' (example_duplicate_trace [])
       = Inl (duplicate_logged_value_error (AStr ''x''))
   \<and> duplicate_logged_value_error (AStr ''x'')
       = ValueError ''Named value x has been logged multiple times.''
   \<and> distinct (logged_value_names example_api (example_trace []) (example_task_span []))
   \<and> \<not> (\<exists>e. parse_spans example_api ''u1'' (example_trace []) = Inl e
            \<and> is_duplicate_logged_value_error e)"
proof -
  let ?spans = "example_duplicate_trace []"
  let ?task = "example_task_span []"
  have h1: "get_attributes example_api ?spans ''pipeline.'' = Inr []" by code_simp
  have h2: "extract_task_dependencies ?spans = Inr {}" by code_simp
  have h3: "sort_by_start_time (Spans_filter [''name''] ''execute-task'' ?spans) = [] @ ?task # []"
    by code_simp
  have h4: "task_run_loop example_api (pipeline_top_span_id [] ''u1'') [] ?spans [] = Inr []"
    by simp
  have h5: "get_attributes example_api (bound_inclusive example_api ?spans ?task) ''task.''
              = Inr [(''task.notebook'', AStr ''notebooks/train.py'')]"
    by code_simp
  have h6: "dict_get (dict_merge [] [(''task.notebook'', AStr ''notebooks/train.py'')]) ''task.notebook''
              = Inr (AStr ''notebooks/train.py'')"
    by code_simp
  have h7: "logged_value_spans example_api ?spans ?task
              = [example_value_span ''0x02'' ''x'' []] @ example_value_span ''0x03'' ''x'' [] # []"
    by code_simp
  have h8: "logged_values_loop example_api [example_value_span ''0x02'' ''x'' []] []
              = Inr [(''x'', \<lparr>LoggedValueContent.type = ''utf-8'',
                             LoggedValueContent.content = PStr ''hello''\<rparr>)]"
    by code_simp
  have h9: "set (map fst (Span.attributes (example_value_span ''0x03'' ''x'' [])))
              = {''name'', ''type'', ''encoding'', ''content_encoded''}"
    by (auto simp: example_value_span_def)
  have h10: "map_of (Span.attributes (example_value_span ''0x03'' ''x'' [])) ''name'' = Some (AStr ''x'')"
    by (simp add: example_value_span_def)
  have h11: "Some (AStr ''x'') \<in> set (map (\<lambda>span. map_of (Span.attributes span) ''name'')
               [example_value_span ''0x02'' ''x'' []])"
    by (simp add: example_value_span_def)
  have a: "count_list (logged_value_names example_api ?spans ?task) (Some (AStr ''x'')) = 2"
    by code_simp
  have a2: "\<exists>task_top_span\<in>set ?spans. name task_top_span = ''execute-task''
              \<and> 2 \<le> count_list (logged_value_names example_api ?spans task_top_span)
                        (Some (AStr ''x''))"
    by code_simp
  have b: "duplicate_logged_value_error (AStr ''x'')
             = ValueError ''Named value x has been logged multiple times.''"
    by (simp add: duplicate_logged_value_error_def py_str_def)
  have c: "distinct (logged_value_names example_api (example_trace []) ?task)" by code_simp
  have c': "\<forall>task_top_span\<in>set (example_trace []). name task_top_span = ''execute-task''
              \<longrightarrow> distinct (logged_value_names example_api (example_trace []) task_top_span)
                  \<and> (\<forall>x\<in>set (logged_value_names example_api (example_trace []) task_top_span).
                        \<exists>s. x = Some (AStr s))"
  proof -
    have "logged_value_names example_api (example_trace []) (example_task_span [])
            = [Some (AStr ''x''), Some (AStr ''y'')]"
      by code_simp
    moreover have "\<forall>task_top_span\<in>set (example_trace []). name task_top_span = ''execute-task''
                     \<longrightarrow> task_top_span = example_task_span []"
      by (simp add: example_trace_def example_value_span_def)
    ultimately show ?thesis by auto
  qed
  note inst = duplicate_logged_value_halts_parsing
    [where spans = ?spans and api = example_api and uuid = "''u1''" and value_name = "''x''"
       and pipeline_attributes = "[]" and dependencies = "{}" and before = "[]"
       and task_top_span = ?task and after = "[]" and runs = "[]"
       and own_attributes = "[(''task.notebook'', AStr ''notebooks/train.py'')]"
       and notebook = "''notebooks/train.py''"
       and pre = "[example_value_span ''0x02'' ''x'' []]"
       and span = "example_value_span ''0x03'' ''x'' []" and post = "[]"
       and ys = "[(''x'', \<lparr>LoggedValueContent.type = ''utf-8'',
                             LoggedValueContent.content = PStr ''hello''\<rparr>)]"]
  from inst a2 have halts: "\<exists>e. parse_spans example_api ''u1'' ?spans = Inl e"
    by blast
  from inst h1 h2 h3 h4 h5 h6 h7 h8 h9 h10 h11
  have d: "parse_spans example_api ''u1'' ?spans = Inl (duplicate_logged_value_error (AStr ''x''))"
    by blast
  from duplicate_logged_value_halts_parsing
         [where spans = "example_trace []" and api = example_api and uuid = "''u1''"]
       c' example_api_raises_no_duplicate_error
  have e: "\<forall>e. parse_spans example_api ''u1'' (example_trace []) = Inl e
             \<longrightarrow> \<not> is_duplicate_logged_value_error e"
    by blast
  from a halts b c d e show ?thesis by blast
qed

section \<open>ray\_helpers: the retry wrapper and the timeout guard\<close>

subsection \<open>C6: the retry wrapper\<close>

text \<open>
  Modelled from the spec: \<^verbatim>\<open>retry_wrapper(f_task_remote, max_retries, is_success)\<close> of
  \<^verbatim>\<open>ray_helpers\<close>, which is not among the sources (its tests are). The spec gives the
  loop: for attempt 0 to \<^verbatim>\<open>max_retries - 1\<close>, call the callable with the attempt index
  and keep the result; return the results so far when the success predicate holds of the
  result; return all results when the attempts are used up. The tests expect the
  successful result to be the last element of the list. The callable is given by the
  result of each attempt; an attempt index is passed once, so this covers a callable
  whose results vary from call to call.
\<close>

function retry_loop :: "(nat \<Rightarrow> 'r) \<Rightarrow> nat \<Rightarrow> ('r \<Rightarrow> bool) \<Rightarrow> nat \<Rightarrow> 'r list \<Rightarrow> 'r list" where
  "retry_loop f max_retries is_success attempt results_so_far =
     (if attempt < max_retries then
        (let r = f attempt; results_so_far' = results_so_far @ [r]
         in if is_success r then results_so_far'
            else retry_loop f max_retries is_success (attempt + 1) results_so_far')
      else results_so_far)"
  by pat_completeness auto
termination
  by (relation "measure (\<lambda>(f, max_retries, is_success, attempt, results_so_far). max_retries - attempt)")
     auto

declare retry_loop.simps [simp del]

definition retry_wrapper :: "(nat \<Rightarrow> 'r) \<Rightarrow> nat \<Rightarrow> ('r \<Rightarrow> bool) \<Rightarrow> 'r list" where
  "retry_wrapper f max_retries is_success = retry_loop f max_retries is_success 0 []"

lemma retry_loop_results:
  "attempt \<le> max_retries \<Longrightarrow>
   \<exists>n. attempt \<le> n \<and> n \<le> max_retries
       \<and> retry_loop f max_retries is_success attempt acc = acc @ map f [attempt..<n]
       \<and> (\<forall>i. attempt \<le> i \<and> Suc i < n \<longrightarrow> \<not> is_success (f i))
       \<and> (attempt < max_retries \<longrightarrow> attempt < n \<and> (is_success (f (n - 1)) \<or> n = max_retries))"
proof (induction f max_retries is_success attempt acc rule: retry_loop.induct)
  case (1 f max_retries is_success attempt acc)
  show ?case
  proof (cases "attempt < max_retries")
    case False
    with "1.prems" have "attempt = max_retries" by simp
    then show ?thesis
      by (intro exI [of _ attempt]) (auto simp: retry_loop.simps [of _ _ _ max_retries])
  next
    case True
    show ?thesis
    proof (cases "is_success (f attempt)")
      case s: True
      have "retry_loop f max_retries is_success attempt acc = acc @ map f [attempt..<Suc attempt]"
        using True s by (simp add: retry_loop.simps [of _ _ _ attempt])
      with True s show ?thesis
        by (intro exI [of _ "Suc attempt"]) auto
    next
      case s: False
      from True have le: "attempt + 1 \<le> max_retries" by simp
      from "1.IH" [OF True refl refl s le] obtain n where n: "attempt + 1 \<le> n" "n \<le> max_retries"
          "retry_loop f max_retries is_success (attempt + 1) (acc @ [f attempt])
             = (acc @ [f attempt]) @ map f [attempt + 1..<n]"
          "\<forall>i. attempt + 1 \<le> i \<and> Suc i < n \<longrightarrow> \<not> is_success (f i)"
          "attempt + 1 < max_retries \<longrightarrow> attempt + 1 < n \<and> (is_success (f (n - 1)) \<or> n = max_retries)"
        by blast
      have run: "retry_loop f max_retries is_success attempt acc = acc @ map f [attempt..<n]"
        using True s n(1) n(3) by (simp add: retry_loop.simps [of _ _ _ attempt] upt_conv_Cons)
      have fails: "\<forall>i. attempt \<le> i \<and> Suc i < n \<longrightarrow> \<not> is_success (f i)"
      proof (intro allI impI)
        fix i assume i: "attempt \<le> i \<and> Suc i < n"
        show "\<not> is_success (f i)"
        proof (cases "i = attempt")
          case True
          with s show ?thesis by simp
        next
          case False
          with i have "attempt + 1 \<le> i \<and> Suc i < n" by simp
          with n(4) show ?thesis by blast
        qed
      qed
      have last: "is_success (f (n - 1)) \<or> n = max_retries"
      proof (cases "attempt + 1 < max_retries")
        case True
        with n(5) show ?thesis by blast
      next
        case False
        with n(1) n(2) show ?thesis by simp
      qed
      from n(1) n(2) run fails last show ?thesis
        by (intro exI [of _ n]) auto
    qed
  qed
qed

text \<open>
  Claim C6. For \<open>max_retries \<ge> 1\<close> the retry wrapper returns between 1 and
  \<open>max_retries\<close> results; the i-th result is the result of the callable on the attempt
  index i, counted from zero; every result but the last fails the predicate; and the
  wrapper stopped because the last result satisfies the predicate or because
  \<open>max_retries\<close> attempts were made.
\<close>

theorem retry_wrapper_results:
  assumes "1 \<le> max_retries"
  shows "1 \<le> length (retry_wrapper f max_retries is_success)
       \<and> length (retry_wrapper f max_retries is_success) \<le> max_retries
       \<and> retry_wrapper f max_retries is_success
           = map f [0..<length (retry_wrapper f max_retries is_success)]
       \<and> (\<forall>i. Suc i < length (retry_wrapper f max_retries is_success)
              \<longrightarrow> \<not> is_success (retry_wrapper f max_retries is_success ! i))
       \<and> (is_success (last (retry_wrapper f max_retries is_success))
            \<or> length (retry_wrapper f max_retries is_success) = max_retries)"
proof -
  from retry_loop_results [of 0 max_retries f is_success "[]"] assms obtain n where
      n: "0 < n" "n \<le> max_retries" and rs: "retry_wrapper f max_retries is_success = map f [0..<n]"
      and fails: "\<forall>i. Suc i < n \<longrightarrow> \<not> is_success (f i)"
      and stop: "is_success (f (n - 1)) \<or> n = max_retries"
    by (auto simp: retry_wrapper_def)
  have len: "length (retry_wrapper f max_retries is_success) = n" by (simp add: rs)
  have "last (map f [0..<n]) = f (n - 1)"
    using n(1) by (simp add: last_map)
  with n rs fails stop len show ?thesis by auto
qed

theorem retry_wrapper_results_witness:
  "retry_wrapper (\<lambda>retry_nr. retry_nr) 10 (\<lambda>x. 4 \<le> x) = [0, 1, 2, 3, 4]
   \<and> 1 \<le> length (retry_wrapper (\<lambda>retry_nr. retry_nr) 10 (\<lambda>x. (4::nat) \<le> x))
   \<and> length (retry_wrapper (\<lambda>retry_nr. retry_nr) 10 (\<lambda>x. (4::nat) \<le> x)) \<le> 10
   \<and> retry_wrapper (\<lambda>_. ''foo'') 10 (\<lambda>_. False) = replicate 10 ''foo''"
proof -
  have h: "(1::nat) \<le> 10" by simp
  have a: "retry_wrapper (\<lambda>retry_nr. retry_nr) 10 (\<lambda>x. 4 \<le> x) = [0, 1, 2, 3, 4::nat]"
    by (simp add: retry_wrapper_def retry_loop.simps)
  have b: "retry_wrapper (\<lambda>_. ''foo'') 10 (\<lambda>_. False) = replicate 10 ''foo''"
    by (simp add: retry_wrapper_def retry_loop.simps numeral_eq_Suc)
  from retry_wrapper_results [OF h, of "\<lambda>retry_nr. retry_nr" "\<lambda>x. 4 \<le> x"] a b
  show ?thesis by simp
qed

subsection \<open>C7: the timeout guard\<close>

text \<open>
  Modelled from the spec: the timeout guard \<^verbatim>\<open>try_f_with_timeout_guard(f, timeout_s, ...)\<close>
  of \<^verbatim>\<open>ray_helpers\<close> and the container \<^verbatim>\<open>Try(value, error)\<close> of \<^verbatim>\<open>helpers\<close>, which are
  not among the sources (their tests are). A call of the guarded callable finishes after
  some time, with a value or with an exception, or it never finishes. The spec: if the
  callable finishes before the deadline, its result is returned unchanged, value or
  error; if the deadline elapses first, the guard yields
  \<^verbatim>\<open>Result(value=None, error=TimeoutError)\<close>. The tests give the message of the timeout
  error. A call that finishes exactly at the deadline is not covered by the spec; here
  the deadline wins. Time is any linear order.
\<close>

datatype 'v Try = Try (try_value: "'v option") (try_error: "error option")

datatype ('t, 'v) call = Returns_after 't 'v | Raises_after 't error | Never_finishes

definition timeout_error :: error where
  "timeout_error = Exception ''Timeout error: execution did not finish within timeout limit''"

definition try_f_with_timeout_guard :: "('x \<Rightarrow> ('t::linorder, 'v) call) \<Rightarrow> 't \<Rightarrow> 'x \<Rightarrow> 'v Try" where
  "try_f_with_timeout_guard f timeout_s x =
     (case f x of
        Returns_after d v \<Rightarrow>
          if d < timeout_s then Try (Some v) None else Try None (Some timeout_error)
      | Raises_after d e \<Rightarrow>
          if d < timeout_s then Try None (Some e) else Try None (Some timeout_error)
      | Never_finishes \<Rightarrow> Try None (Some timeout_error))"

text \<open>
  Claim C7. If the callable finishes before the deadline, the guard returns its value,
  or its exception as the error of the result. If the deadline elapses first, or the
  callable never finishes, the guard returns the result with no value and the timeout
  error. The guard is a total function into results: whatever the callable does, the
  caller gets a result, and it never holds both a value and an error.
\<close>

theorem timeout_guard_result:
  "(f x = Returns_after d v \<and> d < timeout_s
      \<longrightarrow> try_f_with_timeout_guard f timeout_s x = Try (Some v) None)
   \<and> (f x = Raises_after d e \<and> d < timeout_s
      \<longrightarrow> try_f_with_timeout_guard f timeout_s x = Try None (Some e))
   \<and> (f x = Never_finishes \<or> (f x = Returns_after d v \<and> timeout_s < d)
        \<or> (f x = Raises_after d e \<and> timeout_s < d)
      \<longrightarrow> try_f_with_timeout_guard f timeout_s x = Try None (Some timeout_error))
   \<and> (try_value (try_f_with_timeout_guard f timeout_s x) = None
        \<or> try_error (try_f_with_timeout_guard f timeout_s x) = None)"
  by (cases "f x") (auto simp: try_f_with_timeout_guard_def)

theorem timeout_guard_result_witness:
  "try_f_with_timeout_guard (\<lambda>_. Never_finishes :: (nat, nat) call) 500 (0::nat)
     = Try None (Some (Exception ''Timeout error: execution did not finish within timeout limit''))
   \<and> try_f_with_timeout_guard (\<lambda>x. Returns_after 1 (x + 1) :: (nat, nat) call) 10000 (2::nat)
     = Try (Some 3) None
   \<and> try_f_with_timeout_guard (\<lambda>x. Raises_after 1 (ValueError ''BOOM'') :: (nat, nat) call) 10000 (2::nat)
     = Try None (Some (ValueError ''BOOM''))
   \<and> try_f_with_timeout_guard (\<lambda>x. Returns_after 200 123 :: (nat, nat) call) 1 (0::nat)
     = Try None (Some (Exception ''Timeout error: execution did not finish within timeout limit''))"
proof -
  have a: "try_f_with_timeout_guard (\<lambda>_. Never_finishes :: (nat, nat) call) 500 (0::nat)
             = Try None (Some timeout_error)"
    using timeout_guard_result [of "\<lambda>_. Never_finishes :: (nat, nat) call" "0::nat" _ _ 500] by simp
  have b: "try_f_with_timeout_guard (\<lambda>x. Returns_after 1 (x + 1) :: (nat, nat) call) 10000 (2::nat)
             = Try (Some 3) None"
    using timeout_guard_result [of "\<lambda>x. Returns_after 1 (x + 1) :: (nat, nat) call" "2::nat" 1 3 10000]
    by simp
  have c: "try_f_with_timeout_guard (\<lambda>x. Raises_after 1 (ValueError ''BOOM'') :: (nat, nat) call) 10000 (2::nat)
             = Try None (Some (ValueError ''BOOM''))"
    using timeout_guard_result
      [of "\<lambda>x. Raises_after 1 (ValueError ''BOOM'') :: (nat, nat) call" "2::nat" 1 _ 10000 "ValueError ''BOOM''"]
    by simp
  have d: "try_f_with_timeout_guard (\<lambda>x. Returns_after 200 123 :: (nat, nat) call) 1 (0::nat)
             = Try None (Some timeout_error)"
    using timeout_guard_result [of "\<lambda>x. Returns_after 200 123 :: (nat, nat) call" "0::nat" 200 123 1]
    by simp
  from a b c d show ?thesis by (simp add: timeout_error_def)
qed

end
